theory Spec2Isabelle
  imports Complex_Main
begin

section \<open>JavaScript numbers\<close>

text \<open>
  The calculator works on JavaScript numbers, which are IEEE binary64 values. A number
  is modelled as a real that is a double, or one of the three special values: the two
  infinities and NaN. The result of an arithmetic operation on finite values is the
  exact result rounded to the nearest double, a tie going to the even significand;
  a result too large for a double is an infinity, and a result below the smallest
  double rounds to a subnormal or to zero.
  The sign of a zero is not recorded: every divisor of the modelled functions that can
  be zero (\<open>decimalOdds - 1\<close>, \<open>probSum\<close>) is a positive zero in the source, so a
  zero divisor is read as \<open>+0\<close>.
\<close>

datatype jsnum = Fin real | PInf | NInf | NaN

subsection \<open>Rounding to binary64\<close>

text \<open>
  \<open>ilog2 x\<close> is the binary exponent of a positive \<open>x\<close>: the \<open>k\<close> with
  \<open>2^k <= x < 2^(k+1)\<close>.
\<close>

function ilog2 :: "real \<Rightarrow> int" where
  "ilog2 x =
     (if x \<le> 0 then 0
      else if 2 \<le> x then ilog2 (x / 2) + 1
      else if x < 1 then ilog2 (x * 2) - 1
      else 0)"
  by pat_completeness auto
termination
proof (relation "measure (\<lambda>x. if 1 \<le> x then nat \<lfloor>log 2 x\<rfloor> else nat \<lfloor>- log 2 x\<rfloor> + 1)")
  show "wf (measure (\<lambda>x. if 1 \<le> x then nat \<lfloor>log 2 x\<rfloor> else nat \<lfloor>- log 2 x\<rfloor> + 1))"
    by simp
next
  fix x :: real
  assume "\<not> x \<le> 0" and x2: "2 \<le> x"
  then have "log 2 (x / 2) = log 2 x - 1" by (simp add: log_divide)
  moreover from x2 have "1 \<le> log 2 x" by (simp add: le_log_iff)
  ultimately show "(x / 2, x) \<in> measure (\<lambda>x. if 1 \<le> x then nat \<lfloor>log 2 x\<rfloor> else nat \<lfloor>- log 2 x\<rfloor> + 1)"
    using x2 by simp
next
  fix x :: real
  assume pos: "\<not> x \<le> 0" and "\<not> 2 \<le> x" and x1: "x < 1"
  then have l: "log 2 (x * 2) = log 2 x + 1" by (simp add: log_mult)
  from pos x1 have neg: "log 2 x < 0" by simp
  show "(x * 2, x) \<in> measure (\<lambda>x. if 1 \<le> x then nat \<lfloor>log 2 x\<rfloor> else nat \<lfloor>- log 2 x\<rfloor> + 1)"
  proof (cases "1 \<le> x * 2")
    case True
    then have "0 \<le> log 2 (x * 2)" using pos by (simp add: zero_le_log_cancel_iff)
    with l have "- log 2 x \<le> 1" by simp
    moreover have "log 2 (x * 2) < 1" using pos x1 by (simp add: log_less_iff)
    moreover from neg have "\<lfloor>log 2 x\<rfloor> + 1 \<le> 0" by linarith
    ultimately show ?thesis using True x1 by simp
  next
    case False
    then have "log 2 (x * 2) < 0" using pos by simp
    with l have "1 < - log 2 x" by simp
    then have "0 < \<lfloor>- log 2 x\<rfloor>" by linarith
    moreover from l have "\<lfloor>- log 2 (x * 2)\<rfloor> = \<lfloor>- log 2 x\<rfloor> - 1" by simp
    ultimately show ?thesis using False x1 by simp
  qed
qed

declare ilog2.simps [simp del]

text \<open>\<open>rne q\<close> is the integer nearest to \<open>q\<close>, a tie going to the even one.\<close>

definition rne :: "real \<Rightarrow> int" where
  "rne q =
     (let f = \<lfloor>q\<rfloor>; r = q - of_int f
      in if r < 1 / 2 then f else if 1 / 2 < r then f + 1
         else if even f then f else f + 1)"

text \<open>
  \<open>ulp_exp x\<close> is the exponent of the last place of the double nearest to \<open>x\<close>: 52
  below the exponent of \<open>x\<close> for a normal number, and \<open>-1074\<close> for a subnormal one.
  \<open>rd x\<close> rounds \<open>x\<close> to 53 significant bits with no bound on the exponent, and
  \<open>fl x\<close> is the double that an operation with the exact result \<open>x\<close> returns.
\<close>

definition ulp_exp :: "real \<Rightarrow> int" where
  "ulp_exp x = max (ilog2 \<bar>x\<bar> - 52) (- 1074)"

definition rd :: "real \<Rightarrow> real" where
  "rd x = of_int (rne (x / 2 powi ulp_exp x)) * 2 powi ulp_exp x"

definition fl :: "real \<Rightarrow> jsnum" where
  "fl x = (if 2 ^ 1024 \<le> \<bar>rd x\<bar> then (if 0 < x then PInf else NInf) else Fin (rd x))"

text \<open>A real is a double when rounding leaves it unchanged.\<close>

definition is_double :: "real \<Rightarrow> bool" where
  "is_double x \<longleftrightarrow> fl x = Fin x"

subsection \<open>Arithmetic and comparison\<close>

definition inf_of_sign :: "real \<Rightarrow> jsnum" where
  "inf_of_sign x = (if 0 < x then PInf else if x < 0 then NInf else NaN)"

fun js_neg :: "jsnum \<Rightarrow> jsnum" where
  "js_neg (Fin x) = Fin (- x)"
| "js_neg PInf = NInf"
| "js_neg NInf = PInf"
| "js_neg NaN = NaN"

fun js_add :: "jsnum \<Rightarrow> jsnum \<Rightarrow> jsnum" where
  "js_add (Fin x) (Fin y) = fl (x + y)"
| "js_add NaN b = NaN"
| "js_add a NaN = NaN"
| "js_add PInf NInf = NaN"
| "js_add NInf PInf = NaN"
| "js_add PInf b = PInf"
| "js_add a PInf = PInf"
| "js_add NInf b = NInf"
| "js_add a NInf = NInf"

definition js_sub :: "jsnum \<Rightarrow> jsnum \<Rightarrow> jsnum" where
  "js_sub a b = js_add a (js_neg b)"

fun js_mul :: "jsnum \<Rightarrow> jsnum \<Rightarrow> jsnum" where
  "js_mul (Fin x) (Fin y) = fl (x * y)"
| "js_mul NaN b = NaN"
| "js_mul a NaN = NaN"
| "js_mul (Fin x) PInf = inf_of_sign x"
| "js_mul (Fin x) NInf = inf_of_sign (- x)"
| "js_mul PInf (Fin y) = inf_of_sign y"
| "js_mul NInf (Fin y) = inf_of_sign (- y)"
| "js_mul PInf PInf = PInf"
| "js_mul PInf NInf = NInf"
| "js_mul NInf PInf = NInf"
| "js_mul NInf NInf = PInf"

fun js_div :: "jsnum \<Rightarrow> jsnum \<Rightarrow> jsnum" where
  "js_div (Fin x) (Fin y) = (if y = 0 then inf_of_sign x else fl (x / y))"
| "js_div NaN b = NaN"
| "js_div a NaN = NaN"
| "js_div (Fin x) PInf = Fin 0"
| "js_div (Fin x) NInf = Fin 0"
| "js_div PInf (Fin y) = (if y < 0 then NInf else PInf)"
| "js_div NInf (Fin y) = (if y < 0 then PInf else NInf)"
| "js_div PInf PInf = NaN"
| "js_div PInf NInf = NaN"
| "js_div NInf PInf = NaN"
| "js_div NInf NInf = NaN"

text \<open>
  The comparisons: less than, strict equality, less or equal, greater than, greater or
  equal. Each is false when an operand is NaN.
\<close>

fun js_lt :: "jsnum \<Rightarrow> jsnum \<Rightarrow> bool" where
  "js_lt (Fin x) (Fin y) = (x < y)"
| "js_lt NaN b = False"
| "js_lt a NaN = False"
| "js_lt PInf b = False"
| "js_lt a NInf = False"
| "js_lt NInf b = True"
| "js_lt a PInf = True"

fun js_eq :: "jsnum \<Rightarrow> jsnum \<Rightarrow> bool" where
  "js_eq (Fin x) (Fin y) = (x = y)"
| "js_eq PInf PInf = True"
| "js_eq NInf NInf = True"
| "js_eq a b = False"

definition js_le :: "jsnum \<Rightarrow> jsnum \<Rightarrow> bool" where
  "js_le a b = (js_lt a b \<or> js_eq a b)"

definition js_gt :: "jsnum \<Rightarrow> jsnum \<Rightarrow> bool" where
  "js_gt a b = js_lt b a"

definition js_ge :: "jsnum \<Rightarrow> jsnum \<Rightarrow> bool" where
  "js_ge a b = js_le b a"

fun isNaN :: "jsnum \<Rightarrow> bool" where
  "isNaN NaN = True"
| "isNaN a = False"

fun isFinite :: "jsnum \<Rightarrow> bool" where
  "isFinite (Fin x) = True"
| "isFinite a = False"

fun Math_abs :: "jsnum \<Rightarrow> jsnum" where
  "Math_abs (Fin x) = Fin \<bar>x\<bar>"
| "Math_abs PInf = PInf"
| "Math_abs NInf = PInf"
| "Math_abs NaN = NaN"

text \<open>
  \<open>Math.round\<close> is the nearest integer, a tie going up: \<open>floor (x + 0.5)\<close>, which is
  a double whenever \<open>x\<close> is.
\<close>

fun Math_round :: "jsnum \<Rightarrow> jsnum" where
  "Math_round (Fin x) = Fin (of_int \<lfloor>x + 1 / 2\<rfloor>)"
| "Math_round a = a"

fun Math_max :: "jsnum \<Rightarrow> jsnum \<Rightarrow> jsnum" where
  "Math_max NaN b = NaN"
| "Math_max a NaN = NaN"
| "Math_max a b = (if js_lt a b then b else a)"

section \<open>Odds conversion\<close>

definition americanToDecimal :: "jsnum \<Rightarrow> jsnum" where
  "americanToDecimal americanOdds =
     (if js_lt americanOdds (Fin 0)
      then js_add (js_div (Fin 100) (Math_abs americanOdds)) (Fin 1)
      else js_add (js_div americanOdds (Fin 100)) (Fin 1))"

definition americanToImpliedProbability :: "jsnum \<Rightarrow> jsnum" where
  "americanToImpliedProbability americanOdds =
     (if js_lt americanOdds (Fin 0)
      then js_div (Math_abs americanOdds) (js_add (Math_abs americanOdds) (Fin 100))
      else js_div (Fin 100) (js_add americanOdds (Fin 100)))"

definition decimalToAmerican :: "jsnum \<Rightarrow> jsnum" where
  "decimalToAmerican decimalOdds =
     (if js_ge decimalOdds (Fin 2)
      then Math_round (js_mul (js_sub decimalOdds (Fin 1)) (Fin 100))
      else Math_round (js_div (Fin (- 100)) (js_sub decimalOdds (Fin 1))))"

section \<open>Expected value\<close>

definition calculateEVPercentage :: "jsnum \<Rightarrow> jsnum \<Rightarrow> jsnum" where
  "calculateEVPercentage yourProbability americanOdds =
     (let decimalOdds = americanToDecimal americanOdds;
          ev = js_sub (js_mul yourProbability (js_sub decimalOdds (Fin 1)))
                 (js_sub (Fin 1) yourProbability)
      in ev)"

definition calculateEVDollars :: "jsnum \<Rightarrow> jsnum \<Rightarrow> jsnum" where
  "calculateEVDollars betAmount evPercentage = js_mul betAmount evPercentage"

section \<open>Kelly criterion and bet sizing\<close>

definition calculateKellyCriterion :: "jsnum \<Rightarrow> jsnum \<Rightarrow> jsnum" where
  "calculateKellyCriterion evPercentage americanOdds =
     (if js_le evPercentage (Fin 0) then Fin 0
      else
        let decimalOdds = americanToDecimal americanOdds;
            kelly = js_div evPercentage (js_sub decimalOdds (Fin 1))
        in Math_max (Fin 0) kelly)"

text \<open>The string union \<open>"full" | "half" | "quarter"\<close>, and the table \<open>fractionMap\<close>.\<close>

datatype kelly_fraction = Full | Half | Quarter

fun fractionMap :: "kelly_fraction \<Rightarrow> jsnum" where
  "fractionMap Full = Fin 1"
| "fractionMap Half = Fin (1 / 2)"
| "fractionMap Quarter = Fin (1 / 4)"

text \<open>The third parameter is optional; an omitted one is \<open>"half"\<close>.\<close>

definition calculateBetSize :: "jsnum \<Rightarrow> jsnum \<Rightarrow> kelly_fraction option \<Rightarrow> jsnum" where
  "calculateBetSize bankroll kellyPercentage kellyFraction =
     (let fraction = fractionMap (case kellyFraction of None \<Rightarrow> Half | Some k \<Rightarrow> k)
      in js_mul (js_mul bankroll kellyPercentage) fraction)"

section \<open>Input validation\<close>

text \<open>
  The parameter of both validators is typed \<open>number\<close>, so the \<open>typeof\<close> test of the
  first guard never fires and the guard is the \<open>isNaN\<close> test.
\<close>

record ValidationResult =
  isValid :: bool
  error :: "string option"

definition validateBankroll :: "jsnum \<Rightarrow> ValidationResult" where
  "validateBankroll amount =
     (if isNaN amount
      then \<lparr>isValid = False, error = Some ''Bankroll must be a valid number''\<rparr>
      else if js_lt amount (Fin 0)
      then \<lparr>isValid = False, error = Some ''Bankroll cannot be negative''\<rparr>
      else if js_gt amount (Fin 1000000)
      then \<lparr>isValid = False,
            error = Some ''Bankroll exceeds maximum allowed ($1,000,000)''\<rparr>
      else \<lparr>isValid = True, error = None\<rparr>)"

definition validateOdds :: "jsnum \<Rightarrow> ValidationResult" where
  "validateOdds odds =
     (if isNaN odds
      then \<lparr>isValid = False, error = Some ''Odds must be a valid number''\<rparr>
      else if \<not> (js_le (Fin (- 1000)) odds \<and> js_le odds (Fin 10000))
      then \<lparr>isValid = False, error = Some ''Odds must be between -1000 and 10000''\<rparr>
      else if js_eq odds (Fin 0)
      then \<lparr>isValid = False, error = Some ''Odds cannot be zero''\<rparr>
      else \<lparr>isValid = True, error = None\<rparr>)"

section \<open>Arbitrage\<close>

record arb_info =
  hasArbitrage :: bool
  arbPercentage :: jsnum

definition detectArbitrage :: "jsnum \<Rightarrow> jsnum \<Rightarrow> arb_info" where
  "detectArbitrage oddsA oddsB =
     (let probA = americanToImpliedProbability oddsA;
          probB = americanToImpliedProbability oddsB;
          probSum = js_add probA probB;
          hasArbitrage = js_lt probSum (Fin 1);
          arbPercentage =
            (if hasArbitrage
             then js_mul (js_sub (js_div (Fin 1) probSum) (Fin 1)) (Fin 100)
             else Fin 0)
      in \<lparr>hasArbitrage = hasArbitrage, arbPercentage = arbPercentage\<rparr>)"

record scenario =
  odds :: jsnum
  requiredBet :: jsnum
  profit :: jsnum
  roi :: jsnum

definition defaultTestOdds :: "jsnum list" where
  "defaultTestOdds =
     [Fin (- 150), Fin (- 140), Fin (- 130), Fin (- 120), Fin (- 110),
      Fin 110, Fin 120, Fin 130, Fin 140, Fin 150]"

text \<open>
  The function mapped over \<open>testOdds\<close>, closed over \<open>betAmount\<close> and
  \<open>decimalOddsA\<close>.
\<close>

definition arbScenario :: "jsnum \<Rightarrow> jsnum \<Rightarrow> jsnum \<Rightarrow> scenario" where
  "arbScenario betAmount decimalOddsA sideBOdds =
     (let decimalOddsB = americanToDecimal sideBOdds;
          hedgeBet = js_div (js_mul betAmount decimalOddsA) decimalOddsB;
          profit = js_sub (js_sub (js_mul betAmount decimalOddsA) betAmount) hedgeBet;
          totalRisk = js_add betAmount hedgeBet;
          roi = (if js_gt totalRisk (Fin 0) then js_div profit totalRisk else Fin 0)
      in \<lparr>odds = sideBOdds,
          requiredBet = js_div (Math_round (js_mul hedgeBet (Fin 100))) (Fin 100),
          profit = js_div (Math_round (js_mul profit (Fin 100))) (Fin 100),
          roi = js_div (Math_round (js_mul roi (Fin 10000))) (Fin 10000)\<rparr>)"

text \<open>The list \<open>testOdds\<close> is optional; an omitted one is the default sweep.\<close>

definition calculateArbProfitScenarios ::
    "jsnum \<Rightarrow> jsnum \<Rightarrow> jsnum list option \<Rightarrow> scenario list" where
  "calculateArbProfitScenarios sideAOdds betAmount testOdds =
     (let decimalOddsA = americanToDecimal sideAOdds
      in map (arbScenario betAmount decimalOddsA)
           (case testOdds of None \<Rightarrow> defaultTestOdds | Some t \<Rightarrow> t))"

section \<open>Complete analysis\<close>

datatype side = Sharps | Pm

record analysis_params =
  sharpsOdds :: jsnum
  pmOdds :: jsnum
  yourProbabilityAgainstFav :: jsnum
  bankroll :: jsnum

record analysis =
  sharpsImpliedProb :: jsnum
  pmImpliedProb :: jsnum
  edgeVsSharps :: jsnum
  edgeVsPM :: jsnum
  recommendedSide :: side
  evPercentage :: jsnum
  fullKellyPercent :: jsnum
  halfKellyBetSize :: jsnum
  quarterKellyBetSize :: jsnum
  arbInfo :: arb_info

definition completeAnalysis :: "analysis_params \<Rightarrow> analysis" where
  "completeAnalysis params =
     (let sharpsImpliedProb = americanToImpliedProbability (sharpsOdds params);
          pmImpliedProb = americanToImpliedProbability (pmOdds params);
          edgeVsSharps =
            calculateEVPercentage (yourProbabilityAgainstFav params) (sharpsOdds params);
          edgeVsPM =
            calculateEVPercentage (yourProbabilityAgainstFav params) (pmOdds params);
          recommendedSide = (if js_gt edgeVsSharps edgeVsPM then Sharps else Pm);
          evPercentage = (if recommendedSide = Sharps then edgeVsSharps else edgeVsPM);
          recommendedOdds =
            (if recommendedSide = Sharps then sharpsOdds params else pmOdds params);
          fullKellyPercent = calculateKellyCriterion evPercentage recommendedOdds
      in \<lparr>sharpsImpliedProb = sharpsImpliedProb,
          pmImpliedProb = pmImpliedProb,
          edgeVsSharps = edgeVsSharps,
          edgeVsPM = edgeVsPM,
          recommendedSide = recommendedSide,
          evPercentage = evPercentage,
          fullKellyPercent = fullKellyPercent,
          halfKellyBetSize = calculateBetSize (bankroll params) fullKellyPercent (Some Half),
          quarterKellyBetSize =
            calculateBetSize (bankroll params) fullKellyPercent (Some Quarter),
          arbInfo = detectArbitrage (sharpsOdds params) (pmOdds params)\<rparr>)"

section \<open>Properties of the rounding\<close>

lemma p2_add1: "(2::real) powi (k + 1) = 2 * 2 powi k"
  by (simp add: power_int_add_1')

lemma p2_sub1: "(2::real) powi (k - 1) = 2 powi k / 2"
  by (simp add: power_int_diff)

lemma p2_mono: "k \<le> l \<Longrightarrow> (2::real) powi k \<le> 2 powi l"
  by (simp add: power_int_increasing)

lemma p2_less: "k < l \<Longrightarrow> (2::real) powi k < 2 powi l"
  by (simp add: power_int_strict_increasing)

lemma p2_pos: "0 < (2::real) powi k"
  by simp

lemma ilog2_bounds:
  "0 < x \<Longrightarrow> 2 powi ilog2 x \<le> x \<and> x < 2 powi (ilog2 x + 1)"
proof (induction x rule: ilog2.induct)
  case (1 x)
  note pos = "1.prems"
  consider (big) "2 \<le> x" | (small) "x < 1" | (unit) "1 \<le> x" "x < 2"
    by linarith
  then show ?case
  proof cases
    case big
    with pos have ih: "2 powi ilog2 (x / 2) \<le> x / 2 \<and> x / 2 < 2 powi (ilog2 (x / 2) + 1)"
      using "1.IH"(1) by simp
    have e: "ilog2 x = ilog2 (x / 2) + 1"
      using big pos by (subst ilog2.simps) simp
    have a: "(2::real) powi (ilog2 (x / 2) + 1) = 2 * 2 powi ilog2 (x / 2)"
      by (rule p2_add1)
    have b: "(2::real) powi (ilog2 (x / 2) + 1 + 1) = 2 * 2 powi (ilog2 (x / 2) + 1)"
      by (rule p2_add1)
    show ?thesis unfolding e using ih a b by linarith
  next
    case small
    with pos have ih: "2 powi ilog2 (x * 2) \<le> x * 2 \<and> x * 2 < 2 powi (ilog2 (x * 2) + 1)"
      using "1.IH"(2) by simp
    have e: "ilog2 x = ilog2 (x * 2) - 1"
      using small pos by (subst ilog2.simps) simp
    have a: "(2::real) powi (ilog2 (x * 2) - 1) = 2 powi ilog2 (x * 2) / 2"
      by (rule p2_sub1)
    have b: "(2::real) powi (ilog2 (x * 2) - 1 + 1) = 2 powi ilog2 (x * 2)"
      by simp
    have c: "(2::real) powi (ilog2 (x * 2) + 1) = 2 * 2 powi ilog2 (x * 2)"
      by (rule p2_add1)
    show ?thesis unfolding e b using ih a c by linarith
  next
    case unit
    then have e: "ilog2 x = 0"
      using pos by (subst ilog2.simps) simp
    show ?thesis unfolding e using unit by simp
  qed
qed

lemma ilog2_le:
  assumes "0 < x" and "x < 2 powi (k + 1)"
  shows "ilog2 x \<le> k"
proof (rule ccontr)
  assume "\<not> ilog2 x \<le> k"
  then have "k + 1 \<le> ilog2 x" by simp
  then have "(2::real) powi (k + 1) \<le> 2 powi ilog2 x" by (rule p2_mono)
  with ilog2_bounds [OF assms(1)] assms(2) show False by linarith
qed

lemma ilog2_ge:
  assumes "2 powi k \<le> x"
  shows "k \<le> ilog2 x"
proof (rule ccontr)
  assume "\<not> k \<le> ilog2 x"
  then have "ilog2 x + 1 \<le> k" by simp
  then have "(2::real) powi (ilog2 x + 1) \<le> 2 powi k" by (rule p2_mono)
  moreover from assms have "0 < x" using p2_pos [of k] by linarith
  ultimately show False using ilog2_bounds [of x] assms by linarith
qed

lemma ilog2_mono:
  assumes "0 < x" and "x \<le> y"
  shows "ilog2 x \<le> ilog2 y"
proof -
  from ilog2_bounds [OF assms(1)] assms(2) have "2 powi ilog2 x \<le> y" by linarith
  then show ?thesis by (rule ilog2_ge)
qed

subsection \<open>Round half to even\<close>

lemma rne_cases: "rne q = \<lfloor>q\<rfloor> \<or> rne q = \<lfloor>q\<rfloor> + 1"
  by (simp add: rne_def Let_def)

lemma rne_error: "\<bar>of_int (rne q) - q\<bar> \<le> 1 / 2"
proof -
  have "of_int \<lfloor>q\<rfloor> \<le> q" and "q < of_int \<lfloor>q\<rfloor> + 1" by linarith+
  then show ?thesis by (auto simp: rne_def Let_def abs_le_iff)
qed

lemma rne_of_int: "rne (of_int n) = n"
  by (simp add: rne_def)

lemma rne_mono:
  assumes "q \<le> q'"
  shows "rne q \<le> rne q'"
proof -
  from assms have f: "\<lfloor>q\<rfloor> \<le> \<lfloor>q'\<rfloor>" by (rule floor_mono)
  show ?thesis
  proof (cases "\<lfloor>q\<rfloor> = \<lfloor>q'\<rfloor>")
    case True
    with assms show ?thesis by (auto simp: rne_def Let_def)
  next
    case False
    with f have "\<lfloor>q\<rfloor> + 1 \<le> \<lfloor>q'\<rfloor>" by simp
    moreover have "rne q \<le> \<lfloor>q\<rfloor> + 1" using rne_cases [of q] by auto
    moreover have "\<lfloor>q'\<rfloor> \<le> rne q'" using rne_cases [of q'] by auto
    ultimately show ?thesis by linarith
  qed
qed

lemma rne_minus: "rne (- q) = - rne q"
proof (cases "q = of_int \<lfloor>q\<rfloor>")
  case True
  then obtain n where "q = of_int n" ..
  then show ?thesis using rne_of_int [of "- n"] by (simp add: rne_of_int)
next
  case False
  then have fm: "\<lfloor>- q\<rfloor> = - \<lfloor>q\<rfloor> - 1"
    by (simp add: floor_minus ceiling_altdef)
  have lo: "of_int \<lfloor>q\<rfloor> < q" using False by linarith
  define r where "r = q - of_int \<lfloor>q\<rfloor>"
  have r': "- q - of_int (- \<lfloor>q\<rfloor> - 1) = 1 - r" by (simp add: r_def)
  have ev: "even (- \<lfloor>q\<rfloor> - 1) \<longleftrightarrow> odd \<lfloor>q\<rfloor>" by simp
  consider "r < 1 / 2" | "1 / 2 < r" | "r = 1 / 2" by linarith
  then show ?thesis
  proof cases
    case 1
    then show ?thesis unfolding rne_def Let_def fm r' ev r_def [symmetric] by simp
  next
    case 2
    then show ?thesis unfolding rne_def Let_def fm r' ev r_def [symmetric] by simp
  next
    case 3
    then show ?thesis unfolding rne_def Let_def fm r' ev r_def [symmetric] by simp
  qed
qed

lemma rne_ge: "of_int n \<le> q \<Longrightarrow> n \<le> rne q"
  using rne_mono [of "of_int n" q] by (simp add: rne_of_int)

lemma rne_le: "q \<le> of_int n \<Longrightarrow> rne q \<le> n"
  using rne_mono [of q "of_int n"] by (simp add: rne_of_int)

lemma ulp_exp_minus: "ulp_exp (- x) = ulp_exp x"
  by (simp add: ulp_exp_def)

lemma ulp_exp_ge: "- 1074 \<le> ulp_exp x"
  by (simp add: ulp_exp_def)

lemma rd_minus: "rd (- x) = - rd x"
  by (simp add: rd_def ulp_exp_minus rne_minus)

lemma rd_zero: "rd 0 = 0"
  by (simp add: rd_def rne_def)

lemma rd_error: "\<bar>rd x - x\<bar> \<le> 2 powi ulp_exp x / 2"
proof -
  define p :: real where "p = 2 powi ulp_exp x"
  have p: "0 < p" by (simp add: p_def)
  have "rd x - x = (of_int (rne (x / p)) - x / p) * p"
    using p by (simp add: rd_def p_def field_simps)
  then have "\<bar>rd x - x\<bar> = \<bar>of_int (rne (x / p)) - x / p\<bar> * p"
    using p by (simp add: abs_mult)
  also have "\<dots> \<le> 1 / 2 * p"
    using rne_error [of "x / p"] p by (intro mult_right_mono) simp_all
  finally show ?thesis by (simp add: p_def)
qed

lemma ulp_exp_le:
  assumes "x \<noteq> 0" and "\<bar>x\<bar> < 2 powi (k + 53)" and "- 1074 \<le> k"
  shows "ulp_exp x \<le> k"
proof -
  from assms(1) have pos: "0 < \<bar>x\<bar>" by simp
  have "k + 53 = (k + 52) + 1" by simp
  with assms(2) have "\<bar>x\<bar> < 2 powi ((k + 52) + 1)" by simp
  from ilog2_le [OF pos this] have "ilog2 \<bar>x\<bar> \<le> k + 52" .
  with assms(3) show ?thesis by (simp add: ulp_exp_def)
qed

lemma ulp_exp_lower:
  assumes "2 powi (k + 52) \<le> \<bar>x\<bar>"
  shows "k \<le> ulp_exp x"
proof -
  from ilog2_ge [OF assms] have "k + 52 \<le> ilog2 \<bar>x\<bar>" .
  then show ?thesis by (simp add: ulp_exp_def)
qed

lemma rd_abs_err:
  assumes "\<bar>x\<bar> \<le> 2 powi k" and "- 1022 \<le> k"
  shows "\<bar>rd x - x\<bar> \<le> 2 powi (k - 53)"
proof (cases "x = 0")
  case True
  then show ?thesis by (simp add: rd_zero)
next
  case False
  have "(2::real) powi k < 2 powi (k + 1)" by (rule p2_less) simp
  with assms(1) have lt: "\<bar>x\<bar> < 2 powi (k + 1)" by linarith
  have eq: "k + 1 = (k - 52) + 53" by simp
  have "\<bar>x\<bar> < 2 powi ((k - 52) + 53)" using lt unfolding eq .
  from ulp_exp_le [OF False this] assms(2) have "ulp_exp x \<le> k - 52" by simp
  then have "(2::real) powi ulp_exp x \<le> 2 powi (k - 52)" by (rule p2_mono)
  moreover have "(2::real) powi (k - 52 - 1) = 2 powi (k - 52) / 2" by (rule p2_sub1)
  moreover have "k - 52 - 1 = k - 53" by simp
  ultimately show ?thesis using rd_error [of x] by simp
qed

lemma fl_abs_err:
  assumes "\<bar>x\<bar> \<le> 2 powi k" and "- 1022 \<le> k" and "k \<le> 1023"
  shows "\<exists>y. fl x = Fin y \<and> \<bar>y - x\<bar> \<le> 2 powi (k - 53)"
proof -
  from rd_abs_err [OF assms(1,2)] have e: "\<bar>rd x - x\<bar> \<le> 2 powi (k - 53)" .
  have "(2::real) powi (k - 53) < 2 powi k" by (rule p2_less) simp
  with e assms(1) have "\<bar>rd x\<bar> < 2 powi k + 2 powi k" by linarith
  also have "\<dots> = 2 powi (k + 1)" by (simp add: p2_add1)
  also have "\<dots> \<le> 2 powi 1024" using assms(3) by (intro p2_mono) simp
  finally have "\<bar>rd x\<bar> < 2 ^ 1024" by simp
  then show ?thesis using e by (simp add: fl_def)
qed

lemma rd_exact:
  assumes "x = of_int m * 2 powi k" and "\<bar>m\<bar> < 2 ^ 53" and "- 1074 \<le> k"
  shows "rd x = x"
proof (cases "m = 0")
  case True
  with assms(1) show ?thesis by (simp add: rd_zero)
next
  case False
  with assms(1) have nz: "x \<noteq> 0" by simp
  have "\<bar>x\<bar> = of_int \<bar>m\<bar> * 2 powi k" by (simp add: assms(1) abs_mult)
  also have "\<dots> < 2 ^ 53 * 2 powi k"
  proof (rule mult_strict_right_mono)
    from assms(2) have "(of_int \<bar>m\<bar> :: real) < of_int (2 ^ 53)" by (simp only: of_int_less_iff)
    then show "(of_int \<bar>m\<bar> :: real) < 2 ^ 53" by simp
  qed simp
  also have "\<dots> = 2 powi (k + 53)" by (simp add: power_int_add)
  finally have "\<bar>x\<bar> < 2 powi (k + 53)" .
  from ulp_exp_le [OF nz this assms(3)] have le: "ulp_exp x \<le> k" .
  define e where "e = ulp_exp x"
  define j where "j = nat (k - e)"
  from le have k: "k = e + int j" by (simp add: j_def e_def)
  have "x / 2 powi e = of_int m * 2 powi (int j)"
    by (simp add: assms(1) k power_int_add)
  also have "\<dots> = of_int (m * 2 ^ j)" by simp
  finally have q: "x / 2 powi e = of_int (m * 2 ^ j)" .
  have "rd x = of_int (m * 2 ^ j) * 2 powi e"
    unfolding rd_def e_def [symmetric] q rne_of_int ..
  also have "\<dots> = x" using q by (simp add: field_simps)
  finally show ?thesis .
qed

lemma fl_exact:
  assumes "x = of_int m * 2 powi k" and "\<bar>m\<bar> < 2 ^ 53" and "- 1074 \<le> k"
    and "\<bar>x\<bar> < 2 ^ 1024"
  shows "fl x = Fin x"
  using rd_exact [OF assms(1-3)] assms(4) by (simp add: fl_def)

lemma fl_of_int:
  assumes "\<bar>n\<bar> < 2 ^ 53"
  shows "fl (of_int n) = Fin (of_int n)"
proof (rule fl_exact [of _ n 0])
  from assms have "(of_int \<bar>n\<bar> :: real) < of_int (2 ^ 53)" by (simp only: of_int_less_iff)
  then have "\<bar>of_int n :: real\<bar> < 2 ^ 53" by simp
  also have "(2::real) ^ 53 < 2 ^ 1024" by (rule power_strict_increasing) simp_all
  finally show "\<bar>of_int n :: real\<bar> < 2 ^ 1024" .
qed (use assms in simp_all)

lemma rd_nonneg: "0 \<le> x \<Longrightarrow> 0 \<le> rd x"
proof -
  assume "0 \<le> x"
  then have "0 \<le> x / 2 powi ulp_exp x" by simp
  then have "of_int 0 \<le> x / 2 powi ulp_exp x" by simp
  from rne_ge [OF this] show ?thesis by (simp add: rd_def)
qed

lemma rd_nonpos: "x \<le> 0 \<Longrightarrow> rd x \<le> 0"
  using rd_nonneg [of "- x"] by (simp add: rd_minus)

lemma rd_lower:
  assumes "0 < x"
  shows "2 powi (ulp_exp x + 52) \<le> rd x \<or> ulp_exp x = - 1074"
proof (cases "ulp_exp x = - 1074")
  case False
  then have e: "ulp_exp x = ilog2 x - 52"
    using assms by (simp add: ulp_exp_def max_def split: if_splits)
  then have "ulp_exp x + 52 = ilog2 x" by simp
  with ilog2_bounds [OF assms] have "2 powi (ulp_exp x + 52) \<le> x" by simp
  then have "2 powi ulp_exp x * 2 ^ 52 \<le> x" by (simp add: power_int_add)
  then have "of_int (2 ^ 52) \<le> x / 2 powi ulp_exp x" by (simp add: field_simps)
  from rne_ge [OF this] have "(2::int) ^ 52 \<le> rne (x / 2 powi ulp_exp x)" .
  then have "(of_int (2 ^ 52) :: real) \<le> of_int (rne (x / 2 powi ulp_exp x))"
    by (simp only: of_int_le_iff)
  then have "2 ^ 52 * 2 powi ulp_exp x \<le> rd x"
    unfolding rd_def by (intro mult_right_mono) simp_all
  then show ?thesis by (simp add: power_int_add mult.commute)
qed simp

lemma rd_upper:
  assumes "0 < x"
  shows "rd x \<le> 2 powi (ulp_exp x + 53)"
proof -
  have "ilog2 x - 52 \<le> ulp_exp x" using assms by (simp add: ulp_exp_def)
  then have "ilog2 x + 1 \<le> ulp_exp x + 53" by simp
  then have "(2::real) powi (ilog2 x + 1) \<le> 2 powi (ulp_exp x + 53)" by (rule p2_mono)
  with ilog2_bounds [OF assms] have "x \<le> 2 powi (ulp_exp x + 53)" by linarith
  then have "x \<le> 2 powi ulp_exp x * 2 ^ 53" by (simp add: power_int_add)
  then have "x / 2 powi ulp_exp x \<le> of_int (2 ^ 53)" by (simp add: field_simps)
  from rne_le [OF this] have "rne (x / 2 powi ulp_exp x) \<le> 2 ^ 53" .
  then have "(of_int (rne (x / 2 powi ulp_exp x)) :: real) \<le> of_int (2 ^ 53)"
    by (simp only: of_int_le_iff)
  then have "rd x \<le> 2 ^ 53 * 2 powi ulp_exp x"
    unfolding rd_def by (intro mult_right_mono) simp_all
  then show ?thesis by (simp add: power_int_add mult.commute)
qed

lemma rd_mono_pos:
  assumes "0 < x" and "x \<le> y"
  shows "rd x \<le> rd y"
proof -
  from assms have ypos: "0 < y" by simp
  from assms have "ilog2 \<bar>x\<bar> \<le> ilog2 \<bar>y\<bar>" using ilog2_mono [of x y] by simp
  then have le: "ulp_exp x \<le> ulp_exp y" by (simp add: ulp_exp_def)
  show ?thesis
  proof (cases "ulp_exp x = ulp_exp y")
    case True
    have "x / 2 powi ulp_exp y \<le> y / 2 powi ulp_exp y"
      using assms(2) by (simp add: divide_right_mono)
    from rne_mono [OF this]
    have "(of_int (rne (x / 2 powi ulp_exp y)) :: real) \<le> of_int (rne (y / 2 powi ulp_exp y))"
      by (simp only: of_int_le_iff)
    then show ?thesis unfolding rd_def True by (intro mult_right_mono) simp_all
  next
    case False
    with le have lt: "ulp_exp x + 1 \<le> ulp_exp y" by simp
    with ulp_exp_ge [of x] have "ulp_exp y \<noteq> - 1074" by simp
    with rd_lower [OF ypos] have lo: "2 powi (ulp_exp y + 52) \<le> rd y" by simp
    from lt have "ulp_exp x + 53 \<le> ulp_exp y + 52" by simp
    then have "(2::real) powi (ulp_exp x + 53) \<le> 2 powi (ulp_exp y + 52)" by (rule p2_mono)
    with rd_upper [OF assms(1)] lo show ?thesis by linarith
  qed
qed

lemma rd_mono:
  assumes "x \<le> y"
  shows "rd x \<le> rd y"
proof -
  consider "0 < x" | "x \<le> 0" "0 \<le> y" | "y < 0" by linarith
  then show ?thesis
  proof cases
    case 1
    then show ?thesis using assms by (rule rd_mono_pos)
  next
    case 2
    with rd_nonpos [of x] rd_nonneg [of y] show ?thesis by linarith
  next
    case 3
    with assms have "0 < - y" and "- y \<le> - x" by simp_all
    from rd_mono_pos [OF this] show ?thesis by (simp add: rd_minus)
  qed
qed

lemma is_double_rd: "is_double x \<Longrightarrow> rd x = x"
  by (simp add: is_double_def fl_def split: if_splits)

lemma is_double_bound: "is_double x \<Longrightarrow> \<bar>x\<bar> < 2 ^ 1024"
  by (simp add: is_double_def fl_def split: if_splits)

lemma fl_cases:
  obtains (fin) "\<bar>rd x\<bar> < 2 ^ 1024" "fl x = Fin (rd x)"
  | (pinf) "2 ^ 1024 \<le> rd x" "0 < x" "fl x = PInf"
  | (ninf) "rd x \<le> - (2 ^ 1024)" "x < 0" "fl x = NInf"
proof (cases "\<bar>rd x\<bar> < 2 ^ 1024")
  case True
  then show ?thesis using fin by (simp add: fl_def)
next
  case False
  show ?thesis
  proof (cases "0 < x")
    case True
    with rd_nonneg [of x] False have "2 ^ 1024 \<le> rd x" by simp
    with True False show ?thesis using pinf by (simp add: fl_def)
  next
    case neg: False
    with rd_nonpos [of x] False have "rd x \<le> - (2 ^ 1024)" by simp
    moreover from this rd_zero have "x \<noteq> 0" by auto
    ultimately show ?thesis using neg False ninf by (simp add: fl_def)
  qed
qed

lemma fl_ge:
  assumes "is_double c" and "c \<le> x" and "fl x = Fin y"
  shows "c \<le> y"
proof -
  from assms(3) have "y = rd x" by (simp add: fl_def split: if_splits)
  with rd_mono [OF assms(2)] is_double_rd [OF assms(1)] show ?thesis by simp
qed

lemma fl_le:
  assumes "is_double c" and "x \<le> c" and "fl x = Fin y"
  shows "y \<le> c"
proof -
  from assms(3) have "y = rd x" by (simp add: fl_def split: if_splits)
  with rd_mono [OF assms(2)] is_double_rd [OF assms(1)] show ?thesis by simp
qed

lemma fl_finite_between:
  assumes "is_double a" and "is_double b" and "a \<le> x" and "x \<le> b"
  shows "\<exists>y. fl x = Fin y \<and> a \<le> y \<and> y \<le> b"
proof -
  from rd_mono [OF assms(3)] is_double_rd [OF assms(1)] have lo: "a \<le> rd x" by simp
  from rd_mono [OF assms(4)] is_double_rd [OF assms(2)] have hi: "rd x \<le> b" by simp
  from lo hi is_double_bound [OF assms(1)] is_double_bound [OF assms(2)]
  have "\<bar>rd x\<bar> < 2 ^ 1024" by linarith
  then show ?thesis using lo hi by (simp add: fl_def)
qed


lemma fl_huge:
  assumes "2 ^ 1024 \<le> x"
  shows "fl x = PInf"
proof -
  have "rd (2 ^ 1024) = (2 ^ 1024 :: real)"
    by (rule rd_exact [of _ 1 1024]) simp_all
  with rd_mono [OF assms] have "2 ^ 1024 \<le> rd x" by simp
  moreover have "(0::real) < 2 ^ 1024" by simp
  with assms have "0 < x" by linarith
  ultimately show ?thesis by (simp add: fl_def)
qed

section \<open>Evaluation on literals\<close>

lemmas fl_unfold = fl_def rd_def ulp_exp_def rne_def ilog2.simps Let_def

lemma fl_0: "fl 0 = Fin 0"
  by (simp add: fl_def rd_zero)

lemma fl_1: "fl 1 = Fin 1"
  using fl_of_int [of 1] by simp

section \<open>Zero odds\<close>

lemma americanToDecimal_zero: "americanToDecimal (Fin 0) = Fin 1"
  by (simp add: americanToDecimal_def fl_0 fl_1)

lemma kelly_zero_odds_pos:
  assumes "js_gt ev (Fin 0)"
  shows "calculateKellyCriterion ev (Fin 0) = PInf"
proof -
  have d: "js_sub (americanToDecimal (Fin 0)) (Fin 1) = Fin 0"
    by (simp add: americanToDecimal_zero js_sub_def fl_0)
  from assms consider e where "ev = Fin e" "0 < e" | "ev = PInf"
    by (cases ev) (simp_all add: js_gt_def)
  then show ?thesis
  proof cases
    case 1
    then show ?thesis
      by (simp add: calculateKellyCriterion_def d js_le_def inf_of_sign_def)
  next
    case 2
    then show ?thesis
      by (simp add: calculateKellyCriterion_def d js_le_def)
  qed
qed

text \<open>
  Claim C2, as stated: for zero odds \<open>americanToDecimal\<close> fails with a domain error
  instead of returning a value, and no computation after it returns a non-finite value.
  It fails: \<open>americanToDecimal 0\<close> takes the branch for positive odds and returns 1, and
  \<open>calculateKellyCriterion 0.05 0\<close> divides by \<open>1 - 1\<close> and returns \<open>Infinity\<close>.
\<close>

theorem zero_odds_counterexample:
  "americanToDecimal (Fin 0) = Fin 1
   \<and> calculateKellyCriterion (Fin (5 / 100)) (Fin 0) = PInf
   \<and> \<not> isFinite (calculateKellyCriterion (Fin (5 / 100)) (Fin 0))"
  by (simp add: americanToDecimal_zero kelly_zero_odds_pos js_gt_def)

text \<open>
  Claim C2, amended: for zero odds \<open>americanToDecimal\<close> returns 1 and raises nothing;
  \<open>calculateKellyCriterion\<close> at zero odds returns 0 when the expected value is not
  positive and \<open>Infinity\<close> when it is positive. Zero odds are rejected by the validator
  \<open>validateOdds\<close> only, with the message that odds cannot be zero.
\<close>

theorem zero_odds_amended:
  "americanToDecimal (Fin 0) = Fin 1
   \<and> (js_le ev (Fin 0) \<longrightarrow> calculateKellyCriterion ev (Fin 0) = Fin 0)
   \<and> (js_gt ev (Fin 0) \<longrightarrow> calculateKellyCriterion ev (Fin 0) = PInf)
   \<and> validateOdds (Fin 0) = \<lparr>isValid = False, error = Some ''Odds cannot be zero''\<rparr>"
proof -
  have v: "validateOdds (Fin 0) = \<lparr>isValid = False, error = Some ''Odds cannot be zero''\<rparr>"
    by (simp add: validateOdds_def js_le_def)
  show ?thesis
    using americanToDecimal_zero kelly_zero_odds_pos [of ev]
    by (simp add: calculateKellyCriterion_def v)
qed

theorem zero_odds_amended_witness:
  "calculateKellyCriterion (Fin (- 1 / 10)) (Fin 0) = Fin 0
   \<and> calculateKellyCriterion (Fin (1 / 10)) (Fin 0) = PInf"
  using zero_odds_amended [of "Fin (- 1 / 10)"] zero_odds_amended [of "Fin (1 / 10)"]
  by (simp add: js_le_def js_gt_def)

section \<open>Complete analysis on the two books\<close>

lemma js_lt_irrefl: "\<not> js_lt a a"
  by (cases a) simp_all

lemma js_lt_asym: "js_lt a b \<Longrightarrow> \<not> js_lt b a"
  by (cases a; cases b) simp_all

text \<open>
  Claim C8, amended: \<open>completeAnalysis\<close> recommends the sharps side when its expected
  value is greater and the pm side otherwise, so the pm side when it is greater and
  when the two are equal. From the recommended side's expected value and odds it computes
  the full Kelly fraction, and from that fraction the half and the quarter stake. It
  reports \<open>detectArbitrage sharpsOdds pmOdds\<close>.
\<close>

theorem complete_analysis_amended:
  "recommendedSide (completeAnalysis ps) =
      (if js_gt (calculateEVPercentage (yourProbabilityAgainstFav ps) (sharpsOdds ps))
                (calculateEVPercentage (yourProbabilityAgainstFav ps) (pmOdds ps))
       then Sharps else Pm)
   \<and> (js_gt (calculateEVPercentage (yourProbabilityAgainstFav ps) (pmOdds ps))
             (calculateEVPercentage (yourProbabilityAgainstFav ps) (sharpsOdds ps))
        \<longrightarrow> recommendedSide (completeAnalysis ps) = Pm)
   \<and> (calculateEVPercentage (yourProbabilityAgainstFav ps) (sharpsOdds ps) =
        calculateEVPercentage (yourProbabilityAgainstFav ps) (pmOdds ps)
        \<longrightarrow> recommendedSide (completeAnalysis ps) = Pm)
   \<and> evPercentage (completeAnalysis ps) =
        calculateEVPercentage (yourProbabilityAgainstFav ps)
          (if recommendedSide (completeAnalysis ps) = Sharps then sharpsOdds ps else pmOdds ps)
   \<and> fullKellyPercent (completeAnalysis ps) =
        calculateKellyCriterion (evPercentage (completeAnalysis ps))
          (if recommendedSide (completeAnalysis ps) = Sharps then sharpsOdds ps else pmOdds ps)
   \<and> halfKellyBetSize (completeAnalysis ps) =
        calculateBetSize (bankroll ps) (fullKellyPercent (completeAnalysis ps)) (Some Half)
   \<and> quarterKellyBetSize (completeAnalysis ps) =
        calculateBetSize (bankroll ps) (fullKellyPercent (completeAnalysis ps)) (Some Quarter)
   \<and> arbInfo (completeAnalysis ps) = detectArbitrage (sharpsOdds ps) (pmOdds ps)"
  using js_lt_irrefl js_lt_asym
  by (auto simp: completeAnalysis_def Let_def js_gt_def)

lemma ip_m110: "americanToImpliedProbability (Fin (- 110)) = Fin (4718056752483377 / 9007199254740992)"
  by (simp add: americanToImpliedProbability_def fl_unfold)

lemma ip_150: "americanToImpliedProbability (Fin 150) = Fin (3602879701896397 / 9007199254740992)"
  by (simp add: americanToImpliedProbability_def fl_unfold)

lemma ad_m110: "americanToDecimal (Fin (- 110)) = Fin (2149445276699555 / 1125899906842624)"
  by (simp add: americanToDecimal_def fl_unfold)

lemma ad_150: "americanToDecimal (Fin 150) = Fin (5 / 2)"
  by (simp add: americanToDecimal_def fl_unfold)

lemma lit_055: "fl (11 / 20) = Fin (2476979795053773 / 4503599627370496)"
  by (simp add: fl_unfold)

lemma ev_055_m110:
  "calculateEVPercentage (Fin (2476979795053773 / 4503599627370496)) (Fin (- 110)) =
     Fin (450359962737051 / 9007199254740992)"
  by (simp add: calculateEVPercentage_def ad_m110 js_sub_def fl_unfold)

lemma ev_055_150:
  "calculateEVPercentage (Fin (2476979795053773 / 4503599627370496)) (Fin 150) =
     Fin (3377699720527873 / 9007199254740992)"
  by (simp add: calculateEVPercentage_def ad_150 js_sub_def fl_unfold)

lemma kelly_example:
  "calculateKellyCriterion (Fin (3377699720527873 / 9007199254740992)) (Fin 150) =
     Fin (4503599627370497 / 18014398509481984)"
  by (simp add: calculateKellyCriterion_def ad_150 js_sub_def js_le_def fl_unfold)

lemma arb_example:
  "detectArbitrage (Fin (- 110)) (Fin 150) =
     \<lparr>hasArbitrage = True, arbPercentage = Fin (1160721553446003 / 140737488355328)\<rparr>"
  by (simp add: detectArbitrage_def ip_m110 ip_150 js_sub_def fl_unfold)

lemma completeAnalysis_example:
  "completeAnalysis \<lparr>sharpsOdds = Fin (- 110), pmOdds = Fin 150,
         yourProbabilityAgainstFav = fl (11 / 20), bankroll = Fin 1000\<rparr> =
     \<lparr>sharpsImpliedProb = Fin (4718056752483377 / 9007199254740992),
      pmImpliedProb = Fin (3602879701896397 / 9007199254740992),
      edgeVsSharps = Fin (450359962737051 / 9007199254740992),
      edgeVsPM = Fin (3377699720527873 / 9007199254740992),
      recommendedSide = Pm,
      evPercentage = Fin (3377699720527873 / 9007199254740992),
      fullKellyPercent = Fin (4503599627370497 / 18014398509481984),
      halfKellyBetSize = Fin (4398046511104001 / 35184372088832),
      quarterKellyBetSize = Fin (4398046511104001 / 70368744177664),
      arbInfo = \<lparr>hasArbitrage = True,
                 arbPercentage = Fin (1160721553446003 / 140737488355328)\<rparr>\<rparr>"
proof -
  have h: "calculateBetSize (Fin 1000) (Fin (4503599627370497 / 18014398509481984)) (Some Half)
             = Fin (4398046511104001 / 35184372088832)"
    by (simp add: calculateBetSize_def fl_unfold)
  have q: "calculateBetSize (Fin 1000) (Fin (4503599627370497 / 18014398509481984))
             (Some Quarter) = Fin (4398046511104001 / 70368744177664)"
    by (simp add: calculateBetSize_def fl_unfold)
  show ?thesis
    unfolding completeAnalysis_def Let_def lit_055 analysis_params.simps
      ip_m110 ip_150 ev_055_m110 ev_055_150
    by (simp add: js_gt_def kelly_example h q arb_example)
qed

text \<open>
  Claim C8, as stated: \<open>completeAnalysis\<close> computes the stake at all three scales, full,
  half and quarter. It fails: the result has the full Kelly fraction and the half and
  quarter stakes, and no full stake. With odds \<open>-110\<close> and \<open>+150\<close>, the probability
  literal 0.55 and bankroll 1000 the full stake would be the double next above 250, and
  no number of the result is that one.
\<close>

theorem complete_analysis_counterexample:
  "completeAnalysis \<lparr>sharpsOdds = Fin (- 110), pmOdds = Fin 150,
         yourProbabilityAgainstFav = fl (11 / 20), bankroll = Fin 1000\<rparr> =
     \<lparr>sharpsImpliedProb = Fin (4718056752483377 / 9007199254740992),
      pmImpliedProb = Fin (3602879701896397 / 9007199254740992),
      edgeVsSharps = Fin (450359962737051 / 9007199254740992),
      edgeVsPM = Fin (3377699720527873 / 9007199254740992),
      recommendedSide = Pm,
      evPercentage = Fin (3377699720527873 / 9007199254740992),
      fullKellyPercent = Fin (4503599627370497 / 18014398509481984),
      halfKellyBetSize = Fin (4398046511104001 / 35184372088832),
      quarterKellyBetSize = Fin (4398046511104001 / 70368744177664),
      arbInfo = \<lparr>hasArbitrage = True,
                 arbPercentage = Fin (1160721553446003 / 140737488355328)\<rparr>\<rparr>
   \<and> calculateBetSize (Fin 1000) (Fin (4503599627370497 / 18014398509481984)) (Some Full) =
       Fin (4398046511104001 / 17592186044416)
   \<and> Fin (4398046511104001 / 17592186044416) \<notin>
       {Fin (4718056752483377 / 9007199254740992), Fin (3602879701896397 / 9007199254740992),
        Fin (450359962737051 / 9007199254740992), Fin (3377699720527873 / 9007199254740992),
        Fin (4503599627370497 / 18014398509481984), Fin (4398046511104001 / 35184372088832),
        Fin (4398046511104001 / 70368744177664), Fin (1160721553446003 / 140737488355328)}"
proof -
  have f: "calculateBetSize (Fin 1000) (Fin (4503599627370497 / 18014398509481984)) (Some Full)
             = Fin (4398046511104001 / 17592186044416)"
    by (simp add: calculateBetSize_def fl_unfold)
  show ?thesis unfolding completeAnalysis_example f by simp
qed

theorem complete_analysis_amended_witness:
  "recommendedSide (completeAnalysis \<lparr>sharpsOdds = Fin (- 110), pmOdds = Fin 150,
         yourProbabilityAgainstFav = fl (11 / 20), bankroll = Fin 1000\<rparr>) = Pm
   \<and> recommendedSide (completeAnalysis \<lparr>sharpsOdds = Fin 120, pmOdds = Fin 120,
         yourProbabilityAgainstFav = Fin (1 / 2), bankroll = Fin 1000\<rparr>) = Pm
   \<and> recommendedSide (completeAnalysis \<lparr>sharpsOdds = Fin 150, pmOdds = Fin (- 110),
         yourProbabilityAgainstFav = fl (11 / 20), bankroll = Fin 1000\<rparr>) = Sharps"
  using complete_analysis_amended [of "\<lparr>sharpsOdds = Fin (- 110), pmOdds = Fin 150,
         yourProbabilityAgainstFav = fl (11 / 20), bankroll = Fin 1000\<rparr>"]
    complete_analysis_amended [of "\<lparr>sharpsOdds = Fin 120, pmOdds = Fin 120,
         yourProbabilityAgainstFav = Fin (1 / 2), bankroll = Fin 1000\<rparr>"]
    complete_analysis_amended [of "\<lparr>sharpsOdds = Fin 150, pmOdds = Fin (- 110),
         yourProbabilityAgainstFav = fl (11 / 20), bankroll = Fin 1000\<rparr>"]
  by (simp add: lit_055 ev_055_m110 ev_055_150 js_gt_def js_lt_irrefl)

section \<open>Round trip through decimal odds\<close>

lemma fl_err_pow:
  fixes k :: nat
  assumes "\<bar>x\<bar> \<le> 2 ^ k" and "k \<le> 1023"
  shows "\<exists>y. fl x = Fin y \<and> \<bar>y - x\<bar> \<le> 2 ^ k / 2 ^ 53"
proof -
  have "\<bar>x\<bar> \<le> 2 powi (int k)" using assms(1) by simp
  from fl_abs_err [OF this] assms(2)
  obtain y where y: "fl x = Fin y" "\<bar>y - x\<bar> \<le> 2 powi (int k - 53)" by auto
  have "(2::real) powi (int k - 53) = 2 powi (int k) / 2 powi 53"
    by (rule power_int_diff) simp
  then have "(2::real) powi (int k - 53) = 2 ^ k / 2 ^ 53" by simp
  with y show ?thesis by auto
qed

lemma fl_err_1: "\<bar>x\<bar> \<le> 1 \<Longrightarrow> \<exists>y. fl x = Fin y \<and> \<bar>y - x\<bar> \<le> 1 / 9007199254740992"
  using fl_err_pow [of x 0] by simp

lemma fl_err_2: "\<bar>x\<bar> \<le> 2 \<Longrightarrow> \<exists>y. fl x = Fin y \<and> \<bar>y - x\<bar> \<le> 1 / 4503599627370496"
  using fl_err_pow [of x 1] by simp

lemma fl_err_128: "\<bar>x\<bar> \<le> 128 \<Longrightarrow> \<exists>y. fl x = Fin y \<and> \<bar>y - x\<bar> \<le> 1 / 70368744177664"
  using fl_err_pow [of x 7] by simp

lemma fl_err_16384: "\<bar>x\<bar> \<le> 16384 \<Longrightarrow> \<exists>y. fl x = Fin y \<and> \<bar>y - x\<bar> \<le> 1 / 549755813888"
  using fl_err_pow [of x 14] by simp

lemma js_sub_Fin: "js_sub (Fin x) (Fin y) = fl (x - y)"
  by (simp add: js_sub_def)

lemma Math_round_near:
  assumes "\<bar>p - of_int n\<bar> < 1 / 2"
  shows "Math_round (Fin p) = Fin (of_int n)"
proof -
  from assms have "of_int n \<le> p + 1 / 2" and "p + 1 / 2 < of_int n + 1"
    by linarith+
  then have "\<lfloor>p + 1 / 2\<rfloor> = n" by (simp add: floor_unique)
  then show ?thesis by simp
qed

lemma roundtrip_even: "decimalToAmerican (americanToDecimal (Fin (- 100))) = Fin 100"
  by (simp add: americanToDecimal_def decimalToAmerican_def js_ge_def js_le_def js_sub_def
      fl_unfold)

lemma roundtrip_100: "decimalToAmerican (americanToDecimal (Fin 100)) = Fin 100"
  by (simp add: americanToDecimal_def decimalToAmerican_def js_ge_def js_le_def js_sub_def
      fl_unfold)

lemma roundtrip_dog:
  fixes n :: int
  assumes "101 \<le> n" and "n \<le> 10000"
  shows "decimalToAmerican (americanToDecimal (Fin (of_int n))) = Fin (of_int n)"
proof -
  define x :: real where "x = of_int n"
  from assms have x: "101 \<le> x" "x \<le> 10000" by (simp_all add: x_def)
  then have "\<bar>x / 100\<bar> \<le> 128" by simp
  from fl_err_128 [OF this]
  obtain t where t: "fl (x / 100) = Fin t" "\<bar>t - x / 100\<bar> \<le> 1 / 70368744177664" by auto
  from t(2) x have "\<bar>t + 1\<bar> \<le> 128" by linarith
  from fl_err_128 [OF this]
  obtain d where d: "fl (t + 1) = Fin d" "\<bar>d - (t + 1)\<bar> \<le> 1 / 70368744177664" by auto
  have ad: "americanToDecimal (Fin x) = Fin d"
    using x by (simp add: americanToDecimal_def t d)
  from t(2) d(2) x have d2: "2 \<le> d" by linarith
  from t(2) d(2) x have "\<bar>d - 1\<bar> \<le> 128" by linarith
  from fl_err_128 [OF this]
  obtain s where s: "fl (d - 1) = Fin s" "\<bar>s - (d - 1)\<bar> \<le> 1 / 70368744177664" by auto
  from t(2) d(2) s(2) x have sx: "\<bar>s - x / 100\<bar> \<le> 3 / 70368744177664" by linarith
  with x have "\<bar>s * 100\<bar> \<le> 16384" by linarith
  from fl_err_16384 [OF this]
  obtain p where p: "fl (s * 100) = Fin p" "\<bar>p - s * 100\<bar> \<le> 1 / 549755813888" by auto
  from sx p(2) have "\<bar>p - of_int n\<bar> < 1 / 2" unfolding x_def by linarith
  from Math_round_near [OF this]
  have r: "Math_round (Fin p) = Fin (of_int n)" .
  have "js_ge (Fin d) (Fin 2)" using d2 by (simp add: js_ge_def js_le_def le_less)
  then have "decimalToAmerican (Fin d) =
               Math_round (js_mul (js_sub (Fin d) (Fin 1)) (Fin 100))"
    by (simp only: decimalToAmerican_def if_True)
  also have "\<dots> = Math_round (Fin p)"
    by (simp only: js_sub_Fin s js_mul.simps p)
  finally show ?thesis unfolding x_def [symmetric] ad r .
qed

lemma roundtrip_fav:
  fixes n :: int
  assumes "n \<le> - 101" and "- 10000 \<le> n"
  shows "decimalToAmerican (americanToDecimal (Fin (of_int n))) = Fin (of_int n)"
proof -
  define a :: real where "a = - of_int n"
  from assms have a: "101 \<le> a" "a \<le> 10000" by (simp_all add: a_def)
  define c where "c = 100 / a"
  from a have c: "1 / 100 \<le> c" "c \<le> 100 / 101" and ac: "a * c = 100"
    by (simp_all add: c_def field_simps)
  from c have "\<bar>c\<bar> \<le> 1" by linarith
  from fl_err_1 [OF this]
  obtain t where t: "fl c = Fin t" "\<bar>t - c\<bar> \<le> 1 / 9007199254740992" by auto
  from t(2) c have "\<bar>t + 1\<bar> \<le> 2" by linarith
  from fl_err_2 [OF this]
  obtain d where d: "fl (t + 1) = Fin d" "\<bar>d - (t + 1)\<bar> \<le> 1 / 4503599627370496" by auto
  have neg: "js_lt (Fin (- a)) (Fin 0)" using a by simp
  have abs: "Math_abs (Fin (- a)) = Fin a" using a by simp
  have dv: "js_div (Fin 100) (Math_abs (Fin (- a))) = Fin t"
    using a t(1) by (simp add: c_def)
  have sm: "js_add (Fin t) (Fin 1) = Fin d"
    using d(1) by simp
  have ad: "americanToDecimal (Fin (- a)) = Fin d"
    using neg by (simp only: americanToDecimal_def if_True dv sm)
  from t(2) d(2) c have d2: "d < 2" by linarith
  from t(2) d(2) c have "\<bar>d - 1\<bar> \<le> 1" by linarith
  from fl_err_1 [OF this]
  obtain s where s: "fl (d - 1) = Fin s" "\<bar>s - (d - 1)\<bar> \<le> 1 / 9007199254740992" by auto
  define e where "e = s - c"
  from t(2) d(2) s(2) have e: "\<bar>e\<bar> \<le> 1 / 2251799813685248" unfolding e_def by linarith
  have s_eq: "s = c + e" by (simp add: e_def)
  from e c have spos: "1 / 128 \<le> s" unfolding s_eq by linarith
  have ae: "\<bar>a * e\<bar> \<le> 10000 * (1 / 2251799813685248)"
    unfolding abs_mult using a e by (intro mult_mono) simp_all
  have as: "a * s = 100 + a * e" by (simp add: s_eq ac distrib_left)
  have lo: "(a - 1 / 8) * s \<le> 100"
  proof -
    have "(a - 1 / 8) * s = 100 + a * e - s / 8" by (simp add: as left_diff_distrib)
    with ae spos show ?thesis by linarith
  qed
  have hi: "100 \<le> (a + 1 / 8) * s"
  proof -
    have "(a + 1 / 8) * s = 100 + a * e + s / 8" by (simp add: as distrib_right)
    with ae spos show ?thesis by linarith
  qed
  from spos have s0: "0 < s" by linarith
  from lo s0 have q1: "a - 1 / 8 \<le> 100 / s" by (simp add: pos_le_divide_eq)
  from hi s0 have q2: "100 / s \<le> a + 1 / 8" by (simp add: pos_divide_le_eq)
  from q2 a have "\<bar>- 100 / s\<bar> \<le> 16384" using s0 by (simp add: abs_if)
  from fl_err_16384 [OF this]
  obtain w where w: "fl (- 100 / s) = Fin w" "\<bar>w - (- 100 / s)\<bar> \<le> 1 / 549755813888"
    by auto
  have "- 100 / s = - (100 / s)" by simp
  with w(2) q1 q2 have "\<bar>w - of_int n\<bar> < 1 / 2" unfolding a_def by linarith
  from Math_round_near [OF this]
  have r: "Math_round (Fin w) = Fin (of_int n)" .
  have "\<not> js_ge (Fin d) (Fin 2)" using d2 by (simp add: js_ge_def js_le_def)
  then have "decimalToAmerican (Fin d) =
               Math_round (js_div (Fin (- 100)) (js_sub (Fin d) (Fin 1)))"
    by (simp only: decimalToAmerican_def if_False)
  also have "js_div (Fin (- 100)) (js_sub (Fin d) (Fin 1)) = Fin w"
    using s0 w(1) by (simp add: js_sub_Fin s)
  finally have "decimalToAmerican (americanToDecimal (Fin (- a))) = Fin (of_int n)"
    unfolding ad r .
  then show ?thesis by (simp add: a_def)
qed

text \<open>
  Claim C3, amended: for every integer \<open>n\<close> with \<open>|n|\<close> in \<open>[100, 10000]\<close> other
  than \<open>-100\<close> the round trip returns \<open>n\<close> itself, and at \<open>n = -100\<close> it returns
  \<open>+100\<close>, the same even-money price.
\<close>

theorem roundtrip_amended:
  fixes n :: int
  assumes "100 \<le> \<bar>n\<bar>" and "\<bar>n\<bar> \<le> 10000"
  shows "decimalToAmerican (americanToDecimal (Fin (of_int n))) =
           (if n = - 100 then Fin 100 else Fin (of_int n))"
proof -
  from assms consider "n = - 100" | "n = 100" | "101 \<le> n" "n \<le> 10000"
    | "n \<le> - 101" "- 10000 \<le> n"
    by linarith
  then show ?thesis
  proof cases
    case 1
    then show ?thesis using roundtrip_even by simp
  next
    case 2
    then show ?thesis using roundtrip_100 by simp
  next
    case 3
    from roundtrip_dog [OF this] 3 show ?thesis by simp
  next
    case 4
    from roundtrip_fav [OF this] 4 show ?thesis by simp
  qed
qed

text \<open>
  Claim C3, as stated: for every integer \<open>n\<close> with \<open>|n|\<close> in \<open>[100, 10000]\<close>, the
  round trip \<open>decimalToAmerican (americanToDecimal n)\<close> is within 1 of \<open>n\<close>, the
  boundary \<open>n = -100\<close> included. It fails there: the decimal odds of \<open>-100\<close> are
  exactly 2, the test \<open>decimalOdds >= 2\<close> takes the underdog branch, and the result
  is \<open>+100\<close>, which is 200 away.
\<close>

theorem roundtrip_counterexample:
  "decimalToAmerican (americanToDecimal (Fin (- 100))) = Fin 100
   \<and> \<not> \<bar>(100::real) - (- 100)\<bar> \<le> 1"
  using roundtrip_even by simp

theorem roundtrip_amended_witness:
  "decimalToAmerican (americanToDecimal (Fin (- 110))) = Fin (- 110)
   \<and> decimalToAmerican (americanToDecimal (Fin 150)) = Fin 150
   \<and> decimalToAmerican (americanToDecimal (Fin (- 100))) = Fin 100"
  using roundtrip_amended [of "- 110"] roundtrip_amended [of 150]
    roundtrip_amended [of "- 100"]
  by simp

section \<open>Arbitrage detection\<close>

lemma is_double_1: "is_double 1"
  by (simp add: is_double_def fl_1)

lemma is_double_below_1: "is_double (9007199254740991 / 9007199254740992)"
  unfolding is_double_def
  by (rule fl_exact [of _ 9007199254740991 "- 53"]) simp_all

lemma sum_lt_1_exact:
  assumes "js_lt (fl s) (Fin 1)"
  shows "s < 1"
proof (rule ccontr)
  assume "\<not> s < 1"
  then have "1 \<le> s" by simp
  from rd_mono [OF this] is_double_rd [OF is_double_1] have "1 \<le> rd s" by simp
  then have "fl s = PInf \<or> (\<exists>y. fl s = Fin y \<and> 1 \<le> y)"
    by (cases s rule: fl_cases) auto
  with assms show False by auto
qed

lemma sum_lt_1_reported:
  assumes "s \<le> 9007199254740991 / 9007199254740992"
  shows "js_lt (fl s) (Fin 1)"
proof -
  from rd_mono [OF assms] is_double_rd [OF is_double_below_1]
  have "rd s \<le> 9007199254740991 / 9007199254740992" by simp
  then have "fl s = NInf \<or> (\<exists>y. fl s = Fin y \<and> y < 1)"
    by (cases s rule: fl_cases) auto
  then show ?thesis by auto
qed

lemma ip_m120:
  "americanToImpliedProbability (Fin (- 120)) = Fin (1228254443828317 / 2251799813685248)"
  by (simp add: americanToImpliedProbability_def fl_unfold)

lemma ip_100: "americanToImpliedProbability (Fin 100) = Fin (1 / 2)"
  by (simp add: americanToImpliedProbability_def fl_unfold)

lemma ip_100_next:
  "americanToImpliedProbability (Fin (3518437208883201 / 35184372088832)) =
     Fin (9007199254740991 / 18014398509481984)"
  by (simp add: americanToImpliedProbability_def fl_unfold)

lemma arbitrage_rounded_sum:
  "(1 / 2 + 9007199254740991 / 18014398509481984 < (1::real))
   \<and> js_add (Fin (1 / 2)) (Fin (9007199254740991 / 18014398509481984)) = Fin 1
   \<and> detectArbitrage (Fin 100) (Fin (3518437208883201 / 35184372088832)) =
       \<lparr>hasArbitrage = False, arbPercentage = Fin 0\<rparr>"
  by (simp add: detectArbitrage_def ip_100 ip_100_next fl_unfold)

text \<open>
  Claim C4. For all nonzero odds \<open>a\<close> and \<open>b\<close>, with implied probabilities \<open>pa\<close> and
  \<open>pb\<close>, \<open>detectArbitrage a b\<close> reports \<open>hasArbitrage\<close> exactly when the sum
  \<open>pa + pb\<close>, as the program adds them, is less than 1; \<open>arbPercentage\<close> is
  \<open>(1 / (pa + pb) - 1) * 100\<close>, as the program evaluates it, when there is an
  arbitrage and exactly 0 otherwise. A reported arbitrage has an exact sum below 1, and
  an exact sum of at most \<open>1 - 2^-53\<close> is reported. In particular
  \<open>detectArbitrage (-110) (-110)\<close> has no arbitrage, and \<open>detectArbitrage 150 150\<close>
  has one, of 25 percent.
\<close>

theorem arbitrage_detection:
  assumes "a \<noteq> 0" and "b \<noteq> 0"
    and "americanToImpliedProbability (Fin a) = Fin pa"
    and "americanToImpliedProbability (Fin b) = Fin pb"
  shows "(hasArbitrage (detectArbitrage (Fin a) (Fin b)) \<longleftrightarrow>
            js_lt (js_add (Fin pa) (Fin pb)) (Fin 1))
       \<and> (hasArbitrage (detectArbitrage (Fin a) (Fin b)) \<longrightarrow>
            arbPercentage (detectArbitrage (Fin a) (Fin b)) =
              js_mul (js_sub (js_div (Fin 1) (js_add (Fin pa) (Fin pb))) (Fin 1)) (Fin 100))
       \<and> (\<not> hasArbitrage (detectArbitrage (Fin a) (Fin b)) \<longrightarrow>
            arbPercentage (detectArbitrage (Fin a) (Fin b)) = Fin 0)
       \<and> (hasArbitrage (detectArbitrage (Fin a) (Fin b)) \<longrightarrow> pa + pb < 1)
       \<and> (pa + pb \<le> 9007199254740991 / 9007199254740992 \<longrightarrow>
            hasArbitrage (detectArbitrage (Fin a) (Fin b)))
       \<and> detectArbitrage (Fin (- 110)) (Fin (- 110)) =
           \<lparr>hasArbitrage = False, arbPercentage = Fin 0\<rparr>
       \<and> detectArbitrage (Fin 150) (Fin 150) =
           \<lparr>hasArbitrage = True, arbPercentage = Fin 25\<rparr>"
proof -
  have h: "hasArbitrage (detectArbitrage (Fin a) (Fin b)) \<longleftrightarrow>
             js_lt (js_add (Fin pa) (Fin pb)) (Fin 1)"
    by (simp add: detectArbitrage_def Let_def assms(3,4))
  have p: "hasArbitrage (detectArbitrage (Fin a) (Fin b)) \<longrightarrow>
            arbPercentage (detectArbitrage (Fin a) (Fin b)) =
              js_mul (js_sub (js_div (Fin 1) (js_add (Fin pa) (Fin pb))) (Fin 1)) (Fin 100)"
    by (simp add: detectArbitrage_def Let_def assms(3,4))
  have z: "\<not> hasArbitrage (detectArbitrage (Fin a) (Fin b)) \<longrightarrow>
            arbPercentage (detectArbitrage (Fin a) (Fin b)) = Fin 0"
    by (simp add: detectArbitrage_def Let_def assms(3,4))
  have r1: "hasArbitrage (detectArbitrage (Fin a) (Fin b)) \<longrightarrow> pa + pb < 1"
    unfolding h using sum_lt_1_exact [of "pa + pb"] by simp
  have r2: "pa + pb \<le> 9007199254740991 / 9007199254740992 \<longrightarrow>
            hasArbitrage (detectArbitrage (Fin a) (Fin b))"
    unfolding h using sum_lt_1_reported [of "pa + pb"] by simp
  have ex1: "detectArbitrage (Fin (- 110)) (Fin (- 110)) =
           \<lparr>hasArbitrage = False, arbPercentage = Fin 0\<rparr>"
    by (simp add: detectArbitrage_def ip_m110 fl_unfold)
  have ex2: "detectArbitrage (Fin 150) (Fin 150) =
           \<lparr>hasArbitrage = True, arbPercentage = Fin 25\<rparr>"
    by (simp add: detectArbitrage_def ip_150 js_sub_def fl_unfold)
  from h p z r1 r2 ex1 ex2 show ?thesis by blast
qed

theorem arbitrage_detection_witness:
  "hasArbitrage (detectArbitrage (Fin 150) (Fin (- 120)))
   \<and> arbPercentage (detectArbitrage (Fin 150) (Fin (- 120))) =
       Fin (6495576385630525 / 1125899906842624)"
  using arbitrage_detection [of 150 "- 120" "3602879701896397 / 9007199254740992"
      "1228254443828317 / 2251799813685248"]
  by (simp add: ip_150 ip_m120 js_sub_def fl_unfold)

section \<open>Implied probability\<close>

lemma is_double_0: "is_double 0"
  by (simp add: is_double_def fl_0)

lemma is_double_100: "is_double 100"
  unfolding is_double_def using fl_of_int [of 100] by simp

lemma is_double_pow2:
  fixes k :: int
  assumes "- 1074 \<le> k" and "k \<le> 1023"
  shows "is_double (2 powi k)"
  unfolding is_double_def
proof (rule fl_exact [of _ 1 k])
  have "(2::real) powi k < 2 powi 1024" using assms(2) by (intro p2_less) simp
  then show "\<bar>(2::real) powi k\<bar> < 2 ^ 1024" by simp
qed (use assms in simp_all)

text \<open>The result of an operation lies where its exact value lies, between doubles.\<close>

lemma fl_between:
  assumes "is_double lo" and "is_double hi" and "lo \<le> x" and "x \<le> hi"
  obtains y where "fl x = Fin y" and "lo \<le> y" and "y \<le> hi"
  using fl_finite_between [OF assms] by auto

lemma fl_nonneg_cases:
  assumes "is_double c" and "c \<le> x" and "0 \<le> c"
  shows "fl x = PInf \<or> (\<exists>y. fl x = Fin y \<and> c \<le> y)"
proof (cases x rule: fl_cases)
  case fin
  with rd_mono [OF assms(2)] is_double_rd [OF assms(1)] show ?thesis by simp
next
  case pinf
  then show ?thesis by simp
next
  case ninf
  with assms show ?thesis by linarith
qed

lemma implied_probability_unit_interval:
  assumes "x \<noteq> 0" and "is_double x"
  shows "\<exists>p. americanToImpliedProbability (Fin x) = Fin p \<and> 0 \<le> p \<and> p \<le> 1"
proof (cases "x < 0")
  case True
  define a where "a = \<bar>x\<bar>"
  from True have apos: "0 < a" by (simp add: a_def)
  from assms(2) True have ad: "is_double a"
    by (simp add: a_def is_double_def fl_def rd_minus split: if_splits)
  have e: "americanToImpliedProbability (Fin x) = js_div (Fin a) (fl (a + 100))"
    using True by (simp add: americanToImpliedProbability_def a_def)
  from fl_nonneg_cases [OF ad, of "a + 100"] apos
  consider "fl (a + 100) = PInf" | z where "fl (a + 100) = Fin z" "a \<le> z"
    by auto
  then show ?thesis
  proof cases
    case 1
    then show ?thesis by (simp add: e)
  next
    case 2
    with apos have z: "0 < z" by linarith
    with 2 apos have "0 \<le> a / z" and "a / z \<le> 1" by simp_all
    from fl_between [OF is_double_0 is_double_1 this]
    obtain p where "fl (a / z) = Fin p" "0 \<le> p" "p \<le> 1" .
    with z 2 show ?thesis by (simp add: e)
  qed
next
  case False
  with assms(1) have pos: "0 < x" by simp
  have e: "americanToImpliedProbability (Fin x) = js_div (Fin 100) (fl (x + 100))"
    using False by (simp add: americanToImpliedProbability_def)
  from fl_nonneg_cases [OF is_double_100, of "x + 100"] pos
  consider "fl (x + 100) = PInf" | z where "fl (x + 100) = Fin z" "100 \<le> z"
    by auto
  then show ?thesis
  proof cases
    case 1
    then show ?thesis by (simp add: e)
  next
    case 2
    then have "0 \<le> 100 / z" and "100 / z \<le> 1" by simp_all
    from fl_between [OF is_double_0 is_double_1 this]
    obtain p where "fl (100 / z) = Fin p" "0 \<le> p" "p \<le> 1" .
    with 2 show ?thesis by (simp add: e)
  qed
qed

lemma implied_probability_top:
  "americanToImpliedProbability (Fin (- (10 ^ 20))) = Fin 1"
  by (simp add: americanToImpliedProbability_def fl_unfold)

lemma is_double_1e20: "is_double (- (10 ^ 20))"
  by (simp add: is_double_def fl_unfold)

lemma fl_err_2p41:
  "\<bar>x\<bar> \<le> 2199023255552 \<Longrightarrow> \<exists>y. fl x = Fin y \<and> \<bar>y - x\<bar> \<le> 1 / 4096"
  using fl_err_pow [of x 41] by simp

lemma is_double_2p34_inv: "is_double (1 / 17179869184)"
  using is_double_pow2 [of "- 34"] by simp

lemma is_double_2p47_inv: "is_double (1 / 140737488355328)"
  using is_double_pow2 [of "- 47"] by simp

lemma is_double_below_1_34: "is_double (17179869183 / 17179869184)"
  unfolding is_double_def
  by (rule fl_exact [of _ 17179869183 "- 34"]) simp_all

lemma is_double_below_1_47: "is_double (140737488355327 / 140737488355328)"
  unfolding is_double_def
  by (rule fl_exact [of _ 140737488355327 "- 47"]) simp_all

lemma is_double_100_plus: "is_double (109951162777601 / 1099511627776)"
  unfolding is_double_def
  by (rule fl_exact [of _ 109951162777601 "- 40"]) simp_all

lemma is_double_2p40_plus: "is_double 1099511627876"
  unfolding is_double_def using fl_of_int [of 1099511627876] by simp

lemma implied_probability_strict:
  assumes "1 / 1099511627776 \<le> \<bar>x\<bar>" and "\<bar>x\<bar> \<le> 1099511627776"
  shows "\<exists>p. americanToImpliedProbability (Fin x) = Fin p \<and> 0 < p \<and> p < 1"
proof (cases "x < 0")
  case True
  define a where "a = \<bar>x\<bar>"
  from assms have a: "1 / 1099511627776 \<le> a" "a \<le> 1099511627776" by (simp_all add: a_def)
  have e: "americanToImpliedProbability (Fin x) = js_div (Fin a) (fl (a + 100))"
    using True by (simp add: americanToImpliedProbability_def a_def)
  from a have "\<bar>a + 100\<bar> \<le> 2199023255552" by linarith
  from fl_err_2p41 [OF this]
  obtain z where z: "fl (a + 100) = Fin z" "\<bar>z - (a + 100)\<bar> \<le> 1 / 4096" by auto
  from z(2) a have zpos: "0 < z" and zl: "a + 99 \<le> z" and zu: "z \<le> a + 101" by linarith+
  have up: "a / z \<le> 17179869183 / 17179869184"
  proof -
    from a zl have "a \<le> 17179869183 / 17179869184 * z" by linarith
    with zpos show ?thesis by (simp add: pos_divide_le_eq)
  qed
  have lo: "1 / 140737488355328 \<le> a / z"
  proof -
    from a zu have "1 / 140737488355328 * z \<le> a" by linarith
    with zpos show ?thesis by (simp add: pos_le_divide_eq)
  qed
  from fl_between [OF is_double_2p47_inv is_double_below_1_34 lo up]
  obtain p where "fl (a / z) = Fin p" "1 / 140737488355328 \<le> p" "p \<le> 17179869183 / 17179869184" .
  with zpos z(1) show ?thesis by (simp add: e)
next
  case False
  with assms have x: "1 / 1099511627776 \<le> x" "x \<le> 1099511627776" by simp_all
  have e: "americanToImpliedProbability (Fin x) = js_div (Fin 100) (fl (x + 100))"
    using False by (simp add: americanToImpliedProbability_def)
  from x have "109951162777601 / 1099511627776 \<le> x + 100" and "x + 100 \<le> 1099511627876"
    by linarith+
  from fl_between [OF is_double_100_plus is_double_2p40_plus this]
  obtain z where z: "fl (x + 100) = Fin z" "109951162777601 / 1099511627776 \<le> z"
    "z \<le> 1099511627876" .
  from z(2) have zpos: "0 < z" by linarith
  have up: "100 / z \<le> 140737488355327 / 140737488355328"
  proof -
    from z(2) have "100 \<le> 140737488355327 / 140737488355328 * z" by linarith
    with zpos show ?thesis by (simp add: pos_divide_le_eq)
  qed
  have lo: "1 / 17179869184 \<le> 100 / z"
  proof -
    from z(3) have "1 / 17179869184 * z \<le> 100" by linarith
    with zpos show ?thesis by (simp add: pos_le_divide_eq)
  qed
  from fl_between [OF is_double_2p34_inv is_double_below_1_47 lo up]
  obtain p where "fl (100 / z) = Fin p" "1 / 17179869184 \<le> p" "p \<le> 140737488355327 / 140737488355328" .
  with zpos z(1) show ?thesis by (simp add: e)
qed

text \<open>
  Claim C7, as stated: the implied probability of every nonzero odds lies strictly
  between 0 and 1. It fails for odds of large magnitude: \<open>10^20 + 100\<close> rounds to
  \<open>10^20\<close>, so the implied probability of \<open>-10^20\<close> is exactly 1.
\<close>

theorem implied_probability_counterexample:
  "is_double (- (10 ^ 20))
   \<and> americanToImpliedProbability (Fin (- (10 ^ 20))) = Fin 1
   \<and> \<not> js_lt (americanToImpliedProbability (Fin (- (10 ^ 20)))) (Fin 1)"
  using implied_probability_top is_double_1e20 by simp

text \<open>
  Claim C7, amended: for every nonzero odds \<open>x\<close> the implied probability is
  \<open>|x| / (|x| + 100)\<close> for a favourite and \<open>100 / (x + 100)\<close> for an underdog, evaluated
  in double arithmetic, and it lies between 0 and 1, both included. It lies strictly
  between 0 and 1 when \<open>|x|\<close> is between \<open>2^-40\<close> and \<open>2^40\<close>.
\<close>

theorem implied_probability_formula_bounds:
  assumes "x \<noteq> 0" and "is_double x"
  shows "(x < 0 \<longrightarrow> americanToImpliedProbability (Fin x) =
            js_div (Fin \<bar>x\<bar>) (js_add (Fin \<bar>x\<bar>) (Fin 100)))
       \<and> (0 < x \<longrightarrow> americanToImpliedProbability (Fin x) =
            js_div (Fin 100) (js_add (Fin x) (Fin 100)))
       \<and> (\<exists>p. americanToImpliedProbability (Fin x) = Fin p \<and> 0 \<le> p \<and> p \<le> 1)
       \<and> (1 / 2 ^ 40 \<le> \<bar>x\<bar> \<and> \<bar>x\<bar> \<le> 2 ^ 40 \<longrightarrow>
            js_lt (Fin 0) (americanToImpliedProbability (Fin x))
            \<and> js_lt (americanToImpliedProbability (Fin x)) (Fin 1))"
proof -
  have f1: "x < 0 \<longrightarrow> americanToImpliedProbability (Fin x) =
            js_div (Fin \<bar>x\<bar>) (js_add (Fin \<bar>x\<bar>) (Fin 100))"
    by (simp add: americanToImpliedProbability_def)
  have f2: "0 < x \<longrightarrow> americanToImpliedProbability (Fin x) =
            js_div (Fin 100) (js_add (Fin x) (Fin 100))"
    by (simp add: americanToImpliedProbability_def)
  have s: "1 / 2 ^ 40 \<le> \<bar>x\<bar> \<and> \<bar>x\<bar> \<le> 2 ^ 40 \<longrightarrow>
            js_lt (Fin 0) (americanToImpliedProbability (Fin x))
            \<and> js_lt (americanToImpliedProbability (Fin x)) (Fin 1)"
  proof
    assume "1 / 2 ^ 40 \<le> \<bar>x\<bar> \<and> \<bar>x\<bar> \<le> 2 ^ 40"
    then have "1 / 1099511627776 \<le> \<bar>x\<bar>" and "\<bar>x\<bar> \<le> 1099511627776" by simp_all
    from implied_probability_strict [OF this]
    show "js_lt (Fin 0) (americanToImpliedProbability (Fin x))
            \<and> js_lt (americanToImpliedProbability (Fin x)) (Fin 1)" by auto
  qed
  from f1 f2 implied_probability_unit_interval [OF assms] s show ?thesis by blast
qed

theorem implied_probability_formula_bounds_witness:
  "(- 110 :: real) \<noteq> 0 \<and> is_double (- 110)
   \<and> americanToImpliedProbability (Fin (- 110)) =
       js_div (Fin \<bar>- 110\<bar>) (js_add (Fin \<bar>- 110\<bar>) (Fin 100))
   \<and> js_lt (Fin 0) (americanToImpliedProbability (Fin (- 110)))
   \<and> js_lt (americanToImpliedProbability (Fin (- 110))) (Fin 1)"
proof -
  have n: "(- 110 :: real) \<noteq> 0" by simp
  have d: "is_double (- 110)" by (simp add: is_double_def fl_unfold)
  have r: "(1::real) / 2 ^ 40 \<le> \<bar>- 110\<bar> \<and> \<bar>- 110 :: real\<bar> \<le> 2 ^ 40" by simp
  have neg: "(- 110 :: real) < 0" by simp
  from implied_probability_formula_bounds [OF n d] r neg n d show ?thesis by blast
qed

section \<open>Kelly fraction and stake\<close>





















section \<open>Expected value against the implied probability\<close>

lemma payout_error:
  assumes "1 \<le> \<bar>x\<bar>" and "\<bar>x\<bar> \<le> 10000"
  defines "q \<equiv> (if x < 0 then 100 / \<bar>x\<bar> else x / 100)"
  shows "\<exists>s. js_sub (americanToDecimal (Fin x)) (Fin 1) = Fin s
           \<and> \<bar>s - q\<bar> \<le> 3 / 70368744177664"
    and "1 / 100 \<le> q" and "q \<le> 100"
proof -
  have e: "americanToDecimal (Fin x) = js_add (fl q) (Fin 1)"
    using assms(1) by (auto simp add: americanToDecimal_def q_def)
  show q1: "1 / 100 \<le> q"
  proof (cases "x < 0")
    case True
    with assms have "0 < \<bar>x\<bar>" "1 / 100 * \<bar>x\<bar> \<le> 100" by linarith+
    then have "1 / 100 \<le> 100 / \<bar>x\<bar>" by (simp add: pos_le_divide_eq)
    with True show ?thesis by (simp add: q_def)
  next
    case False
    with assms(1) show ?thesis by (simp add: q_def)
  qed
  show q2: "q \<le> 100"
  proof (cases "x < 0")
    case True
    with assms have "0 < \<bar>x\<bar>" "100 \<le> 100 * \<bar>x\<bar>" by linarith+
    then have "100 / \<bar>x\<bar> \<le> 100" by (simp add: pos_divide_le_eq)
    with True show ?thesis by (simp add: q_def)
  next
    case False
    with assms(2) show ?thesis by (simp add: q_def)
  qed
  from q1 q2 have "\<bar>q\<bar> \<le> 128" by linarith
  from fl_err_128 [OF this]
  obtain t where t: "fl q = Fin t" "\<bar>t - q\<bar> \<le> 1 / 70368744177664" by auto
  from t(2) q1 q2 have "\<bar>t + 1\<bar> \<le> 128" by linarith
  from fl_err_128 [OF this]
  obtain d where d: "fl (t + 1) = Fin d" "\<bar>d - (t + 1)\<bar> \<le> 1 / 70368744177664" by auto
  from t(2) d(2) q1 q2 have "\<bar>d - 1\<bar> \<le> 128" by linarith
  from fl_err_128 [OF this]
  obtain s where s: "fl (d - 1) = Fin s" "\<bar>s - (d - 1)\<bar> \<le> 1 / 70368744177664" by auto
  have "js_sub (americanToDecimal (Fin x)) (Fin 1) = Fin s"
    by (simp add: e t(1) d(1) js_sub_Fin s(1))
  moreover from t(2) d(2) s(2) have "\<bar>s - q\<bar> \<le> 3 / 70368744177664" by linarith
  ultimately show "\<exists>s. js_sub (americanToDecimal (Fin x)) (Fin 1) = Fin s
           \<and> \<bar>s - q\<bar> \<le> 3 / 70368744177664" by blast
qed

lemma ev_error:
  assumes "0 < p" and "p < 1" and "1 \<le> \<bar>x\<bar>" and "\<bar>x\<bar> \<le> 10000"
  defines "q \<equiv> (if x < 0 then 100 / \<bar>x\<bar> else x / 100)"
  shows "\<exists>v. calculateEVPercentage (Fin p) (Fin x) = Fin v
           \<and> \<bar>v - (p * (q + 1) - 1)\<bar> \<le> 1 / 8796093022208"
proof -
  from payout_error [OF assms(3,4)]
  obtain s where s: "js_sub (americanToDecimal (Fin x)) (Fin 1) = Fin s"
    "\<bar>s - q\<bar> \<le> 3 / 70368744177664" and q: "1 / 100 \<le> q" "q \<le> 100"
    unfolding q_def by auto
  define es where "es = s - q"
  have s_eq: "s = q + es" by (simp add: es_def)
  from s(2) have es: "\<bar>es\<bar> \<le> 3 / 70368744177664" by (simp add: es_def)
  have pes: "\<bar>p * es\<bar> \<le> 3 / 70368744177664"
  proof -
    have "\<bar>p * es\<bar> = p * \<bar>es\<bar>" using assms(1) by (simp add: abs_mult)
    also have "\<dots> \<le> 1 * \<bar>es\<bar>" using assms(2) by (intro mult_right_mono) simp_all
    finally show ?thesis using es by linarith
  qed
  have pq: "0 \<le> p * q" "p * q \<le> 100"
  proof -
    show "0 \<le> p * q" using assms(1) q(1) by simp
    have "p * q \<le> 1 * q" using assms(2) q(1) by (intro mult_right_mono) simp_all
    with q(2) show "p * q \<le> 100" by linarith
  qed
  have ps: "p * s = p * q + p * es" by (simp add: s_eq distrib_left)
  from pq pes have "\<bar>p * s\<bar> \<le> 128" unfolding ps by linarith
  from fl_err_128 [OF this]
  obtain m where m: "fl (p * s) = Fin m" "\<bar>m - p * s\<bar> \<le> 1 / 70368744177664" by auto
  from assms(1,2) have "\<bar>1 - p\<bar> \<le> 1" by linarith
  from fl_err_1 [OF this]
  obtain c where c: "fl (1 - p) = Fin c" "\<bar>c - (1 - p)\<bar> \<le> 1 / 9007199254740992" by auto
  from m(2) c(2) pq pes assms(1,2) have "\<bar>m - c\<bar> \<le> 128" unfolding ps by linarith
  from fl_err_128 [OF this]
  obtain v where v: "fl (m - c) = Fin v" "\<bar>v - (m - c)\<bar> \<le> 1 / 70368744177664" by auto
  have "calculateEVPercentage (Fin p) (Fin x) = Fin v"
    by (simp add: calculateEVPercentage_def s(1) m(1) js_sub_Fin c(1) v(1))
  moreover have "p * (q + 1) - 1 = p * q - (1 - p)" by (simp add: distrib_left)
  with m(2) c(2) v(2) pes have "\<bar>v - (p * (q + 1) - 1)\<bar> \<le> 1 / 8796093022208"
    unfolding ps by linarith
  ultimately show ?thesis by blast
qed

lemma implied_error:
  assumes "1 \<le> \<bar>x\<bar>" and "\<bar>x\<bar> \<le> 10000"
  defines "q \<equiv> (if x < 0 then 100 / \<bar>x\<bar> else x / 100)"
  shows "\<exists>ip Q G. americanToImpliedProbability (Fin x) = Fin ip
           \<and> \<bar>ip - Q\<bar> \<le> 1 / 9007199254740992 \<and> Q * G = 1 \<and> 1 \<le> G
           \<and> \<bar>G - (q + 1)\<bar> \<le> 1 / 549755813888"
proof -
  define a where "a = \<bar>x\<bar>"
  from assms(1,2) have a: "1 \<le> a" "a \<le> 10000" by (simp_all add: a_def)
  then have "\<bar>a + 100\<bar> \<le> 16384" by linarith
  from fl_err_16384 [OF this]
  obtain z where z: "fl (a + 100) = Fin z" "\<bar>z - (a + 100)\<bar> \<le> 1 / 549755813888" by auto
  from z(2) a have zb: "100 \<le> z" "a \<le> z" by linarith+
  then have zpos: "0 < z" by linarith
  show ?thesis
  proof (cases "x < 0")
    case True
    have e: "americanToImpliedProbability (Fin x) = fl (a / z)"
      using True zpos by (simp add: americanToImpliedProbability_def a_def [symmetric] z(1))
    from a zb zpos have "\<bar>a / z\<bar> \<le> 1" by simp
    from fl_err_1 [OF this]
    obtain ip where ip: "fl (a / z) = Fin ip" "\<bar>ip - a / z\<bar> \<le> 1 / 9007199254740992"
      by auto
    have qg: "a / z * (z / a) = 1" using a zpos by simp
    have g1: "1 \<le> z / a" using a zb by (simp add: pos_le_divide_eq)
    have "z / a - (q + 1) = (z - (a + 100)) / a"
      using True a by (simp add: q_def a_def [symmetric] field_simps)
    then have "\<bar>z / a - (q + 1)\<bar> = \<bar>z - (a + 100)\<bar> / \<bar>a\<bar>"
      by (simp only: abs_divide)
    also have "\<dots> = \<bar>z - (a + 100)\<bar> / a" using a by simp
    also have "\<dots> \<le> \<bar>z - (a + 100)\<bar> / 1" using a by (intro divide_left_mono) simp_all
    finally have gq: "\<bar>z / a - (q + 1)\<bar> \<le> 1 / 549755813888" using z(2) by simp
    from e ip(1) have e': "americanToImpliedProbability (Fin x) = Fin ip" by simp
    show ?thesis
      apply (rule exI [of _ ip], rule exI [of _ "a / z"], rule exI [of _ "z / a"])
      using e' ip(2) qg g1 gq by (intro conjI)

  next
    case False
    with assms(1) have xa: "x = a" by (simp add: a_def)
    have e: "americanToImpliedProbability (Fin x) = fl (100 / z)"
      using False zpos by (simp add: americanToImpliedProbability_def xa z(1))
    from zb have "\<bar>100 / z\<bar> \<le> 1" by simp
    from fl_err_1 [OF this]
    obtain ip where ip: "fl (100 / z) = Fin ip" "\<bar>ip - 100 / z\<bar> \<le> 1 / 9007199254740992"
      by auto
    have qg: "100 / z * (z / 100) = 1" using zpos by simp
    have g1: "1 \<le> z / 100" using zb by simp
    have "z / 100 - (q + 1) = (z - (a + 100)) / 100"
      using False by (simp add: q_def xa field_simps)
    then have "\<bar>z / 100 - (q + 1)\<bar> = \<bar>z - (a + 100)\<bar> / \<bar>100\<bar>"
      by (simp only: abs_divide)
    also have "\<dots> = \<bar>z - (a + 100)\<bar> / 100" by simp
    also have "\<dots> \<le> \<bar>z - (a + 100)\<bar> / 1" by (intro divide_left_mono) simp_all
    finally have gq: "\<bar>z / 100 - (q + 1)\<bar> \<le> 1 / 549755813888" using z(2) by simp
    from e ip(1) have e': "americanToImpliedProbability (Fin x) = Fin ip" by simp
    show ?thesis
      apply (rule exI [of _ ip], rule exI [of _ "100 / z"], rule exI [of _ "z / 100"])
      using e' ip(2) qg g1 gq by (intro conjI)

  qed
qed

lemma scaled_lower:
  fixes d G t :: real
  assumes "1 \<le> G" and "- t < d * G" and "0 < t"
  shows "- t < d"
proof (cases "0 \<le> d")
  case True
  with assms(3) show ?thesis by linarith
next
  case False
  then have "d * G \<le> d * 1" using assms(1) by (intro mult_left_mono_neg) simp_all
  with assms(2) show ?thesis by simp
qed

lemma ev_sign_margin:
  assumes "0 < p" and "p < 1" and "1 \<le> \<bar>x\<bar>" and "\<bar>x\<bar> \<le> 10000"
  shows "\<exists>ip. americanToImpliedProbability (Fin x) = Fin ip
           \<and> (ip + 1 / 2 ^ 35 \<le> p \<longrightarrow>
                 js_gt (calculateEVPercentage (Fin p) (Fin x)) (Fin 0))
           \<and> (js_gt (calculateEVPercentage (Fin p) (Fin x)) (Fin 0) \<longrightarrow>
                 ip - 1 / 2 ^ 35 < p)"
proof -
  define q where "q = (if x < 0 then 100 / \<bar>x\<bar> else x / 100)"
  from ev_error [OF assms]
  obtain v where v: "calculateEVPercentage (Fin p) (Fin x) = Fin v"
    "\<bar>v - (p * (q + 1) - 1)\<bar> \<le> 1 / 8796093022208" unfolding q_def by auto
  from implied_error [OF assms(3,4)]
  obtain ip Q G where i: "americanToImpliedProbability (Fin x) = Fin ip"
    "\<bar>ip - Q\<bar> \<le> 1 / 9007199254740992" "Q * G = 1" "1 \<le> G"
    "\<bar>G - (q + 1)\<bar> \<le> 1 / 549755813888" unfolding q_def by auto
  have "\<bar>p * (G - (q + 1))\<bar> = p * \<bar>G - (q + 1)\<bar>" using assms(1) by (simp add: abs_mult)
  also have "\<dots> \<le> 1 * \<bar>G - (q + 1)\<bar>" using assms(2) by (intro mult_right_mono) simp_all
  also have "\<dots> \<le> 1 / 549755813888" using i(5) by simp
  finally have pg: "\<bar>p * (G - (q + 1))\<bar> \<le> 1 / 549755813888" .
  have dec: "p * G - 1 = (p * (q + 1) - 1) + p * (G - (q + 1))" by (simp add: algebra_simps)
  have prod: "p * G - 1 = (p - Q) * G" using i(3) by (simp add: algebra_simps)
  define y where "y = (p - Q) * G"
  from v(2) pg have vg: "\<bar>v - y\<bar> \<le> 1 / 274877906944"
    unfolding y_def prod [symmetric] dec by linarith
  have up: "ip + 1 / 2 ^ 35 \<le> p \<longrightarrow> js_gt (calculateEVPercentage (Fin p) (Fin x)) (Fin 0)"
  proof
    assume "ip + 1 / 2 ^ 35 \<le> p"
    then have "ip + 1 / 34359738368 \<le> p" by simp
    with i(2) have d: "1 / 68719476736 \<le> p - Q" by linarith
    then have "(p - Q) * 1 \<le> (p - Q) * G" using i(4) by (intro mult_left_mono) simp_all
    then have "p - Q \<le> y" by (simp add: y_def)
    with d vg have "0 < v" by linarith
    then show "js_gt (calculateEVPercentage (Fin p) (Fin x)) (Fin 0)"
      by (simp add: v(1) js_gt_def)
  qed
  have down: "js_gt (calculateEVPercentage (Fin p) (Fin x)) (Fin 0) \<longrightarrow> ip - 1 / 2 ^ 35 < p"
  proof
    assume "js_gt (calculateEVPercentage (Fin p) (Fin x)) (Fin 0)"
    then have "0 < v" by (simp add: v(1) js_gt_def)
    with vg have "- (1 / 274877906944) < y" by linarith
    then have "- (1 / 274877906944) < (p - Q) * G" by (simp only: y_def)
    from scaled_lower [OF i(4) this] have "- (1 / 274877906944) < p - Q" by simp
    with i(2) have "ip - 1 / 34359738368 < p" by linarith
    then show "ip - 1 / 2 ^ 35 < p" by simp
  qed
  from i(1) up down show ?thesis by blast
qed

lemma ev_boundary:
  "calculateEVPercentage (fl (2 / 5)) (Fin 150) = Fin (1 / 9007199254740992)"
proof -
  have l: "fl (2 / 5) = Fin (3602879701896397 / 9007199254740992)"
    by (simp add: fl_unfold)
  show ?thesis
    unfolding l by (simp add: calculateEVPercentage_def ad_150 js_sub_def fl_unfold)
qed

lemma ip_boundary: "americanToImpliedProbability (Fin 150) = fl (2 / 5)"
proof -
  have l: "fl (2 / 5) = Fin (3602879701896397 / 9007199254740992)"
    by (simp add: fl_unfold)
  show ?thesis unfolding l by (rule ip_150)
qed

text \<open>
  Claim C5, as stated: the expected value is positive exactly when the probability
  exceeds the implied probability. It fails at the boundary: with the probability
  \<open>0.4\<close> and the odds \<open>+150\<close>, whose implied probability is the same double
  \<open>0.4\<close>, the expected value is \<open>2^-53\<close>, which is positive.
\<close>

theorem ev_sign_counterexample:
  "calculateEVPercentage (fl (2 / 5)) (Fin 150) = Fin (1 / 9007199254740992)
   \<and> js_gt (calculateEVPercentage (fl (2 / 5)) (Fin 150)) (Fin 0)
   \<and> americanToImpliedProbability (Fin 150) = fl (2 / 5)
   \<and> \<not> js_gt (fl (2 / 5)) (americanToImpliedProbability (Fin 150))"
  unfolding ev_boundary ip_boundary by (simp add: js_gt_def js_lt_irrefl)

text \<open>
  Claim C5, amended: for every probability \<open>p\<close> in \<open>(0, 1)\<close> and all odds \<open>x\<close> with
  \<open>1 <= |x| <= 10000\<close>, \<open>calculateEVPercentage p x\<close> is
  \<open>p * (americanToDecimal x - 1) - (1 - p)\<close> evaluated in double arithmetic; it is
  positive when \<open>p\<close> exceeds the implied probability of \<open>x\<close> by \<open>2^-35\<close> or more, and
  when it is positive \<open>p\<close> exceeds the implied probability less \<open>2^-35\<close>.
\<close>

theorem ev_sign_consistency:
  assumes "0 < p" and "p < 1" and "1 \<le> \<bar>x\<bar>" and "\<bar>x\<bar> \<le> 10000"
  shows "calculateEVPercentage (Fin p) (Fin x) =
           js_sub (js_mul (Fin p) (js_sub (americanToDecimal (Fin x)) (Fin 1)))
                  (js_sub (Fin 1) (Fin p))
       \<and> (\<exists>ip. americanToImpliedProbability (Fin x) = Fin ip
             \<and> (ip + 1 / 2 ^ 35 \<le> p \<longrightarrow>
                   js_gt (calculateEVPercentage (Fin p) (Fin x)) (Fin 0))
             \<and> (js_gt (calculateEVPercentage (Fin p) (Fin x)) (Fin 0) \<longrightarrow>
                   ip - 1 / 2 ^ 35 < p))"
proof
  show "calculateEVPercentage (Fin p) (Fin x) =
           js_sub (js_mul (Fin p) (js_sub (americanToDecimal (Fin x)) (Fin 1)))
                  (js_sub (Fin 1) (Fin p))"
    by (simp add: calculateEVPercentage_def)
  show "\<exists>ip. americanToImpliedProbability (Fin x) = Fin ip
             \<and> (ip + 1 / 2 ^ 35 \<le> p \<longrightarrow>
                   js_gt (calculateEVPercentage (Fin p) (Fin x)) (Fin 0))
             \<and> (js_gt (calculateEVPercentage (Fin p) (Fin x)) (Fin 0) \<longrightarrow>
                   ip - 1 / 2 ^ 35 < p)"
    by (rule ev_sign_margin [OF assms])
qed

theorem ev_sign_consistency_witness:
  "js_gt (calculateEVPercentage (Fin (1 / 2)) (Fin 150)) (Fin 0)"
proof -
  have h: "(0::real) < 1 / 2" "(1 / 2 :: real) < 1" "(1::real) \<le> \<bar>150\<bar>"
    "\<bar>150 :: real\<bar> \<le> 10000" by simp_all
  from ev_sign_consistency [OF h]
  obtain ip where i: "americanToImpliedProbability (Fin 150) = Fin ip"
    "ip + 1 / 2 ^ 35 \<le> 1 / 2 \<longrightarrow>
       js_gt (calculateEVPercentage (Fin (1 / 2)) (Fin 150)) (Fin 0)" by blast
  from i(1) ip_150 have "ip = 3602879701896397 / 9007199254740992" by simp
  then have "ip + 1 / 2 ^ 35 \<le> 1 / 2" by simp
  with i(2) show ?thesis by blast
qed

section \<open>Hedge scenarios\<close>

lemma scenarios_nth:
  assumes "i < length t"
  shows "calculateArbProfitScenarios a b (Some t) ! i =
           arbScenario b (americanToDecimal a) (t ! i)"
  using assms by (simp add: calculateArbProfitScenarios_def)

lemma scenarios_length: "length (calculateArbProfitScenarios a b (Some t)) = length t"
  by (simp add: calculateArbProfitScenarios_def)

lemma scenarios_odds: "map odds (calculateArbProfitScenarios a b (Some t)) = t"
  by (simp add: calculateArbProfitScenarios_def arbScenario_def Let_def comp_def)

lemma scenarios_default:
  "calculateArbProfitScenarios a b None =
     calculateArbProfitScenarios a b
       (Some [Fin (- 150), Fin (- 140), Fin (- 130), Fin (- 120), Fin (- 110),
              Fin 110, Fin 120, Fin 130, Fin 140, Fin 150])"
  by (simp add: calculateArbProfitScenarios_def defaultTestOdds_def)

lemma roi_zero_without_risk:
  assumes "\<not> js_gt (js_add b (js_div (js_mul b dA) (americanToDecimal y))) (Fin 0)"
  shows "roi (arbScenario b dA y) = Fin 0"
  using assms by (simp add: arbScenario_def Let_def fl_0)

lemma fl_err_2p33:
  "\<bar>x\<bar> \<le> 8589934592 \<Longrightarrow> \<exists>y. fl x = Fin y \<and> \<bar>y - x\<bar> \<le> 1 / 1048576"
  using fl_err_pow [of x 33] by simp

lemma fl_err_2p27:
  "\<bar>x\<bar> \<le> 134217728 \<Longrightarrow> \<exists>y. fl x = Fin y \<and> \<bar>y - x\<bar> \<le> 1 / 67108864"
  using fl_err_pow [of x 27] by simp

lemma round_half: "\<bar>of_int \<lfloor>g + 1 / 2\<rfloor> - g\<bar> \<le> (1 / 2 :: real)"
  by linarith

lemma rounded_cents:
  assumes "\<bar>h\<bar> \<le> 2 ^ 26"
  shows "\<exists>m::int. js_div (Math_round (js_mul (Fin h) (Fin 100))) (Fin 100) =
                    fl (of_int m / 100)
           \<and> \<bar>of_int m / 100 - h\<bar> \<le> 1 / 200 + 1 / 2 ^ 26"
proof -
  from assms have "\<bar>h * 100\<bar> \<le> 8589934592" by (simp add: abs_mult)
  from fl_err_2p33 [OF this]
  obtain g where g: "fl (h * 100) = Fin g" "\<bar>g - h * 100\<bar> \<le> 1 / 1048576" by auto
  define m where "m = \<lfloor>g + 1 / 2\<rfloor>"
  have e: "js_div (Math_round (js_mul (Fin h) (Fin 100))) (Fin 100) = fl (of_int m / 100)"
    by (simp add: g(1) m_def)
  from round_half [of g] have "\<bar>of_int m - g\<bar> \<le> 1 / 2" by (simp add: m_def)
  with g(2) have "\<bar>of_int m / 100 - h\<bar> \<le> 1 / 200 + 1 / 67108864" by linarith
  then have "\<bar>of_int m / 100 - h\<bar> \<le> 1 / 200 + 1 / 2 ^ 26" by simp
  with e show ?thesis by blast
qed

lemma rounded_basis_points:
  assumes "\<bar>r\<bar> \<le> 2 ^ 13"
  shows "\<exists>k::int. js_div (Math_round (js_mul (Fin r) (Fin 10000))) (Fin 10000) =
                    fl (of_int k / 10000)
           \<and> \<bar>of_int k / 10000 - r\<bar> \<le> 1 / 20000 + 1 / 2 ^ 39"
proof -
  from assms have "\<bar>r\<bar> * 10000 \<le> 8192 * 10000" by simp
  then have "\<bar>r * 10000\<bar> \<le> 134217728" by (simp add: abs_mult)
  from fl_err_2p27 [OF this]
  obtain g where g: "fl (r * 10000) = Fin g" "\<bar>g - r * 10000\<bar> \<le> 1 / 67108864" by auto
  define k where "k = \<lfloor>g + 1 / 2\<rfloor>"
  have e: "js_div (Math_round (js_mul (Fin r) (Fin 10000))) (Fin 10000) =
             fl (of_int k / 10000)"
    by (simp add: g(1) k_def)
  from round_half [of g] have "\<bar>of_int k - g\<bar> \<le> 1 / 2" by (simp add: k_def)
  with g(2) have "\<bar>of_int k / 10000 - r\<bar> \<le> 1 / 20000 + 1 / 549755813888" by linarith
  then have "\<bar>of_int k / 10000 - r\<bar> \<le> 1 / 20000 + 1 / 2 ^ 39" by simp
  with e show ?thesis by blast
qed

lemma scenario_fields:
  assumes "i < length t"
  shows "requiredBet (calculateArbProfitScenarios a b (Some t) ! i) =
           js_div (Math_round (js_mul
             (js_div (js_mul b (americanToDecimal a)) (americanToDecimal (t ! i)))
             (Fin 100))) (Fin 100)"
    and "profit (calculateArbProfitScenarios a b (Some t) ! i) =
           js_div (Math_round (js_mul
             (js_sub (js_sub (js_mul b (americanToDecimal a)) b)
                (js_div (js_mul b (americanToDecimal a)) (americanToDecimal (t ! i))))
             (Fin 100))) (Fin 100)"
    and "roi (calculateArbProfitScenarios a b (Some t) ! i) =
           js_div (Math_round (js_mul
             (if js_gt (js_add b
                   (js_div (js_mul b (americanToDecimal a)) (americanToDecimal (t ! i))))
                 (Fin 0)
              then js_div
                (js_sub (js_sub (js_mul b (americanToDecimal a)) b)
                  (js_div (js_mul b (americanToDecimal a)) (americanToDecimal (t ! i))))
                (js_add b
                  (js_div (js_mul b (americanToDecimal a)) (americanToDecimal (t ! i))))
              else Fin 0)
             (Fin 10000))) (Fin 10000)"
  unfolding scenarios_nth [OF assms(1)]
  by (simp_all add: arbScenario_def Let_def)

lemma fl_pow2:
  fixes k :: nat
  assumes "k \<le> 1023"
  shows "fl (2 ^ k) = Fin (2 ^ k)"
proof -
  from assms have "is_double (2 powi (int k))" by (intro is_double_pow2) simp_all
  then show ?thesis by (simp add: is_double_def)
qed

lemma ad_100: "americanToDecimal (Fin 100) = Fin 2"
  by (simp add: americanToDecimal_def fl_unfold)

lemma scenario_overflow:
  "calculateArbProfitScenarios (Fin 100) (Fin (2 ^ 1020)) (Some [Fin 100]) =
     [\<lparr>odds = Fin 100, requiredBet = PInf, profit = Fin 0, roi = Fin 0\<rparr>]"
proof -
  define B :: real where "B = 2 ^ 1020"
  have B: "fl B = Fin B" unfolding B_def by (rule fl_pow2) simp
  have B2: "fl (B * 2) = Fin (B * 2)"
    using fl_pow2 [of 1021] by (simp add: B_def)
  have Bpos: "0 < B" by (simp add: B_def)
  have "(2::real) ^ 1024 = 2 ^ 1020 * 2 ^ 4" by (simp only: power_add [symmetric]) simp
  also have "\<dots> \<le> B * 100" unfolding B_def by (intro mult_left_mono) simp_all
  finally have "2 ^ 1024 \<le> B * 100" .
  from fl_huge [OF this] have H: "fl (B * 100) = PInf" .
  have h: "js_div (js_mul (Fin B) (Fin 2)) (Fin 2) = Fin B"
    by (simp add: B2 B)
  have p: "js_sub (js_sub (js_mul (Fin B) (Fin 2)) (Fin B)) (Fin B) = Fin 0"
    by (simp add: B2 js_sub_Fin B fl_0)
  have "B + B = B * 2" by simp
  then have t: "js_add (Fin B) (Fin B) = Fin (B * 2)"
    using B2 by (simp only: js_add.simps)
  have g: "js_gt (Fin (B * 2)) (Fin 0)" using Bpos by (simp add: js_gt_def)
  have r: "js_div (Fin 0) (Fin (B * 2)) = Fin 0" using Bpos by (simp add: fl_0)
  have z: "js_div (Math_round (js_mul (Fin 0) (Fin 100))) (Fin 100) = Fin 0"
    "js_div (Math_round (js_mul (Fin 0) (Fin 10000))) (Fin 10000) = Fin 0"
    by (simp_all add: fl_0)
  have q: "js_div (Math_round (js_mul (Fin B) (Fin 100))) (Fin 100) = PInf"
    by (simp add: H)
  show ?thesis
    unfolding B_def [symmetric] calculateArbProfitScenarios_def ad_100 Let_def
      option.case list.map arbScenario_def h p t
    using g by (simp only: if_True r z q)
qed

text \<open>
  Claim C10, as stated: in every returned scenario \<open>requiredBet\<close> is rounded to 2
  decimal places. It fails when the hedge stake times 100 overflows: with the stake
  \<open>2^1020\<close> at odds \<open>+100\<close> against \<open>+100\<close> the hedge stake is \<open>2^1020\<close> and
  \<open>requiredBet\<close> is \<open>Infinity\<close>.
\<close>

theorem scenario_shape_counterexample:
  "js_div (js_mul (Fin (2 ^ 1020)) (americanToDecimal (Fin 100)))
      (americanToDecimal (Fin 100)) = Fin (2 ^ 1020)
   \<and> calculateArbProfitScenarios (Fin 100) (Fin (2 ^ 1020)) (Some [Fin 100]) =
       [\<lparr>odds = Fin 100, requiredBet = PInf, profit = Fin 0, roi = Fin 0\<rparr>]"
proof -
  have "fl (2 ^ 1020 * 2) = Fin (2 ^ 1020 * 2)"
    using fl_pow2 [of 1021] by simp
  moreover have "fl (2 ^ 1020) = Fin (2 ^ 1020)" by (rule fl_pow2) simp
  ultimately have "js_div (js_mul (Fin (2 ^ 1020)) (americanToDecimal (Fin 100)))
      (americanToDecimal (Fin 100)) = Fin (2 ^ 1020)"
    unfolding ad_100 by simp
  with scenario_overflow show ?thesis by blast
qed

text \<open>
  Claim C10, amended: \<open>calculateArbProfitScenarios\<close> returns one scenario for each
  element of \<open>testOdds\<close>, in the same order, and sweeps the ten candidates from
  \<open>-150\<close> to \<open>+150\<close> when no list is given. \<open>roi\<close> is 0 whenever the total risk
  \<open>betAmount + hedgeBet\<close> is not positive. When the hedge stake \<open>h\<close> is at most
  \<open>2^26\<close> in magnitude, \<open>requiredBet\<close> is the double nearest to a multiple of 0.01
  that is within half a cent, and a rounding error of \<open>2^-26\<close>, of \<open>h\<close>; likewise
  \<open>profit\<close>; when the unrounded \<open>roi\<close> is at most \<open>2^13\<close> in magnitude, \<open>roi\<close> is
  the double nearest to a multiple of 0.0001 within 0.00005, and \<open>2^-39\<close>, of it.
\<close>

theorem scenario_shape_rounding:
  "length (calculateArbProfitScenarios a b (Some t)) = length t
   \<and> map odds (calculateArbProfitScenarios a b (Some t)) = t
   \<and> calculateArbProfitScenarios a b None =
       calculateArbProfitScenarios a b
         (Some [Fin (- 150), Fin (- 140), Fin (- 130), Fin (- 120), Fin (- 110),
                Fin 110, Fin 120, Fin 130, Fin 140, Fin 150])
   \<and> (j < length t
        \<and> \<not> js_gt (js_add b (js_div (js_mul b (americanToDecimal a))
                                (americanToDecimal (t ! j)))) (Fin 0)
        \<longrightarrow> roi (calculateArbProfitScenarios a b (Some t) ! j) = Fin 0)
   \<and> (i < length t
        \<and> js_div (js_mul b (americanToDecimal a)) (americanToDecimal (t ! i)) = Fin h
        \<and> \<bar>h\<bar> \<le> 2 ^ 26 \<longrightarrow>
        (\<exists>m::int. requiredBet (calculateArbProfitScenarios a b (Some t) ! i) =
                    fl (of_int m / 100)
           \<and> \<bar>of_int m / 100 - h\<bar> \<le> 1 / 200 + 1 / 2 ^ 26))
   \<and> (i < length t
        \<and> js_sub (js_sub (js_mul b (americanToDecimal a)) b)
             (js_div (js_mul b (americanToDecimal a)) (americanToDecimal (t ! i))) = Fin p
        \<and> \<bar>p\<bar> \<le> 2 ^ 26 \<longrightarrow>
        (\<exists>n::int. profit (calculateArbProfitScenarios a b (Some t) ! i) =
                    fl (of_int n / 100)
           \<and> \<bar>of_int n / 100 - p\<bar> \<le> 1 / 200 + 1 / 2 ^ 26))
   \<and> (i < length t
        \<and> (if js_gt (js_add b
                 (js_div (js_mul b (americanToDecimal a)) (americanToDecimal (t ! i))))
               (Fin 0)
            then js_div
              (js_sub (js_sub (js_mul b (americanToDecimal a)) b)
                (js_div (js_mul b (americanToDecimal a)) (americanToDecimal (t ! i))))
              (js_add b
                (js_div (js_mul b (americanToDecimal a)) (americanToDecimal (t ! i))))
            else Fin 0) = Fin r
        \<and> \<bar>r\<bar> \<le> 2 ^ 13 \<longrightarrow>
        (\<exists>k::int. roi (calculateArbProfitScenarios a b (Some t) ! i) =
                    fl (of_int k / 10000)
           \<and> \<bar>of_int k / 10000 - r\<bar> \<le> 1 / 20000 + 1 / 2 ^ 39))"
proof -
  have roi0: "j < length t
        \<and> \<not> js_gt (js_add b (js_div (js_mul b (americanToDecimal a))
                                (americanToDecimal (t ! j)))) (Fin 0)
        \<longrightarrow> roi (calculateArbProfitScenarios a b (Some t) ! j) = Fin 0"
    by (simp add: scenarios_nth roi_zero_without_risk)
  have rb: "i < length t
        \<and> js_div (js_mul b (americanToDecimal a)) (americanToDecimal (t ! i)) = Fin h
        \<and> \<bar>h\<bar> \<le> 2 ^ 26 \<longrightarrow>
        (\<exists>m::int. requiredBet (calculateArbProfitScenarios a b (Some t) ! i) =
                    fl (of_int m / 100)
           \<and> \<bar>of_int m / 100 - h\<bar> \<le> 1 / 200 + 1 / 2 ^ 26)"
    using rounded_cents [of h] by (auto simp only: scenario_fields)
  have pr: "i < length t
        \<and> js_sub (js_sub (js_mul b (americanToDecimal a)) b)
             (js_div (js_mul b (americanToDecimal a)) (americanToDecimal (t ! i))) = Fin p
        \<and> \<bar>p\<bar> \<le> 2 ^ 26 \<longrightarrow>
        (\<exists>n::int. profit (calculateArbProfitScenarios a b (Some t) ! i) =
                    fl (of_int n / 100)
           \<and> \<bar>of_int n / 100 - p\<bar> \<le> 1 / 200 + 1 / 2 ^ 26)"
    using rounded_cents [of p] by (auto simp only: scenario_fields)
  have ro: "i < length t
        \<and> (if js_gt (js_add b
                 (js_div (js_mul b (americanToDecimal a)) (americanToDecimal (t ! i))))
               (Fin 0)
            then js_div
              (js_sub (js_sub (js_mul b (americanToDecimal a)) b)
                (js_div (js_mul b (americanToDecimal a)) (americanToDecimal (t ! i))))
              (js_add b
                (js_div (js_mul b (americanToDecimal a)) (americanToDecimal (t ! i))))
            else Fin 0) = Fin r
        \<and> \<bar>r\<bar> \<le> 2 ^ 13 \<longrightarrow>
        (\<exists>k::int. roi (calculateArbProfitScenarios a b (Some t) ! i) =
                    fl (of_int k / 10000)
           \<and> \<bar>of_int k / 10000 - r\<bar> \<le> 1 / 20000 + 1 / 2 ^ 39)"
    using rounded_basis_points [of r] by (auto simp only: scenario_fields)
  from scenarios_length [of a b t] scenarios_odds [of a b t] scenarios_default [of a b]
    roi0 rb pr ro
  show ?thesis by (intro conjI)
qed

lemma hedge_example:
  "js_div (js_mul (Fin 1000) (americanToDecimal (Fin (- 110)))) (americanToDecimal (Fin 100))
     = Fin (8396270612107637 / 8796093022208)"
  by (simp add: ad_m110 ad_100 fl_unfold)

theorem scenario_shape_rounding_witness:
  "length (calculateArbProfitScenarios (Fin (- 110)) (Fin 0) None) = 10
   \<and> roi (calculateArbProfitScenarios (Fin (- 110)) (Fin 0) (Some [Fin 100]) ! 0) = Fin 0
   \<and> (\<exists>m::int.
          requiredBet (calculateArbProfitScenarios (Fin (- 110)) (Fin 1000)
             (Some [Fin 100]) ! 0) = fl (of_int m / 100)
          \<and> \<bar>of_int m / 100 - (8396270612107637 / 8796093022208 :: real)\<bar>
               \<le> 1 / 200 + 1 / 2 ^ 26)"
proof -
  have risk: "\<not> js_gt (js_add (Fin 0) (js_div (js_mul (Fin 0)
      (americanToDecimal (Fin (- 110)))) (americanToDecimal ([Fin 100] ! 0)))) (Fin 0)"
    by (simp add: ad_m110 ad_100 js_gt_def fl_0)
  have hb: "js_div (js_mul (Fin 1000) (americanToDecimal (Fin (- 110))))
      (americanToDecimal ([Fin 100] ! 0)) = Fin (8396270612107637 / 8796093022208)"
    using hedge_example by simp
  have bd: "\<bar>8396270612107637 / 8796093022208 :: real\<bar> \<le> 2 ^ 26" by simp
  have i0: "(0::nat) < length [Fin 100]" by simp
  note d = scenario_shape_rounding [of "Fin (- 110)" "Fin 0"
      "[Fin (- 150), Fin (- 140), Fin (- 130), Fin (- 120), Fin (- 110),
        Fin 110, Fin 120, Fin 130, Fin 140, Fin 150]" 0 0 0 0 0]
  note z = scenario_shape_rounding [of "Fin (- 110)" "Fin 0" "[Fin 100]" 0 0 0 0 0]
  note w = scenario_shape_rounding [of "Fin (- 110)" "Fin 1000" "[Fin 100]" 0 0
      "8396270612107637 / 8796093022208" 0 0]
  from d have len: "length (calculateArbProfitScenarios (Fin (- 110)) (Fin 0) None) = 10"
    by simp
  have zr: "roi (calculateArbProfitScenarios (Fin (- 110)) (Fin 0) (Some [Fin 100]) ! 0)
              = Fin 0"
    by (rule mp [OF z [THEN conjunct2, THEN conjunct2, THEN conjunct2, THEN conjunct1]])
      (intro conjI i0 risk)
  have ex: "\<exists>m::int.
          requiredBet (calculateArbProfitScenarios (Fin (- 110)) (Fin 1000)
             (Some [Fin 100]) ! 0) = fl (of_int m / 100)
          \<and> \<bar>of_int m / 100 - (8396270612107637 / 8796093022208 :: real)\<bar>
               \<le> 1 / 200 + 1 / 2 ^ 26"
    by (rule mp [OF w [THEN conjunct2, THEN conjunct2, THEN conjunct2, THEN conjunct2,
            THEN conjunct1]])
      (intro conjI i0 hb bd)
  from len zr ex show ?thesis by (intro conjI)
qed

section \<open>Hedge equalization\<close>

lemma is_double_101: "is_double 101"
  unfolding is_double_def using fl_of_int [of 101] by simp

lemma fl_err_2p30:
  "\<bar>x\<bar> \<le> 1073741824 \<Longrightarrow> \<exists>y. fl x = Fin y \<and> \<bar>y - x\<bar> \<le> 1 / 8388608"
  using fl_err_pow [of x 30] by simp

lemma decimal_range:
  assumes "1 \<le> \<bar>x\<bar>" and "\<bar>x\<bar> \<le> 10000"
  shows "\<exists>d. americanToDecimal (Fin x) = Fin d \<and> 1 \<le> d \<and> d \<le> 101"
proof -
  define q where "q = (if x < 0 then 100 / \<bar>x\<bar> else x / 100)"
  have e: "americanToDecimal (Fin x) = js_add (fl q) (Fin 1)"
    using assms(1) by (auto simp add: americanToDecimal_def q_def)
  from payout_error(2,3) [OF assms] have "0 \<le> q" "q \<le> 100" unfolding q_def by linarith+
  from fl_between [OF is_double_0 is_double_100 this]
  obtain t where t: "fl q = Fin t" "0 \<le> t" "t \<le> 100" .
  then have "1 \<le> t + 1" "t + 1 \<le> 101" by linarith+
  from fl_between [OF is_double_1 is_double_101 this]
  obtain d where "fl (t + 1) = Fin d" "1 \<le> d" "d \<le> 101" .
  with t(1) show ?thesis by (simp add: e)
qed

lemma hedge_profits:
  assumes "\<bar>b\<bar> \<le> 2 ^ 20" and "1 \<le> dA" and "dA \<le> 101" and "1 \<le> dB" and "dB \<le> 101"
  shows "\<exists>h pA pB.
      js_div (js_mul (Fin b) (Fin dA)) (Fin dB) = Fin h
    \<and> js_sub (js_sub (js_mul (Fin b) (Fin dA)) (Fin b)) (Fin h) = Fin pA
    \<and> js_sub (js_sub (js_mul (Fin h) (Fin dB)) (Fin h)) (Fin b) = Fin pB
    \<and> \<bar>pA - pB\<bar> \<le> 1 / 2 ^ 15"
proof -
  from assms(1) have b: "\<bar>b\<bar> \<le> 1048576" by simp
  have "\<bar>b * dA\<bar> = \<bar>b\<bar> * dA" using assms(2) by (simp add: abs_mult)
  also have "\<dots> \<le> 1048576 * 101" using b assms(2,3) by (intro mult_mono) simp_all
  finally have bd: "\<bar>b * dA\<bar> \<le> 105906176" by simp
  then have "\<bar>b * dA\<bar> \<le> 1073741824" by linarith
  from fl_err_2p30 [OF this]
  obtain P where P: "fl (b * dA) = Fin P" "\<bar>P - b * dA\<bar> \<le> 1 / 8388608" by auto
  from P(2) bd have Pb: "\<bar>P\<bar> \<le> 105906177" by linarith
  have "\<bar>P / dB\<bar> = \<bar>P\<bar> / dB" using assms(4) by simp
  also have "\<dots> \<le> \<bar>P\<bar> / 1" using assms(4) by (intro divide_left_mono) simp_all
  finally have Pd: "\<bar>P / dB\<bar> \<le> 105906177" using Pb by simp
  then have "\<bar>P / dB\<bar> \<le> 1073741824" by linarith
  from fl_err_2p30 [OF this]
  obtain h where h: "fl (P / dB) = Fin h" "\<bar>h - P / dB\<bar> \<le> 1 / 8388608" by auto
  from h(2) Pd have hb: "\<bar>h\<bar> \<le> 105906178" by linarith
  have dB0: "dB \<noteq> 0" using assms(4) by linarith
  have H: "js_div (js_mul (Fin b) (Fin dA)) (Fin dB) = Fin h"
    using dB0 by (simp add: P(1) h(1))
  from Pb b have "\<bar>P - b\<bar> \<le> 1073741824" by linarith
  from fl_err_2p30 [OF this]
  obtain u where u: "fl (P - b) = Fin u" "\<bar>u - (P - b)\<bar> \<le> 1 / 8388608" by auto
  from u(2) Pb b hb have "\<bar>u - h\<bar> \<le> 1073741824" by linarith
  from fl_err_2p30 [OF this]
  obtain pA where pA: "fl (u - h) = Fin pA" "\<bar>pA - (u - h)\<bar> \<le> 1 / 8388608" by auto
  have A: "js_sub (js_sub (js_mul (Fin b) (Fin dA)) (Fin b)) (Fin h) = Fin pA"
    by (simp add: P(1) js_sub_Fin u(1) pA(1))
  define e2 where "e2 = h - P / dB"
  have h_eq: "h = P / dB + e2" by (simp add: e2_def)
  have e2: "\<bar>e2\<bar> \<le> 1 / 8388608" using h(2) by (simp add: e2_def)
  have "\<bar>e2 * dB\<bar> = \<bar>e2\<bar> * dB" using assms(4) by (simp add: abs_mult)
  also have "\<dots> \<le> 1 / 8388608 * 101" using e2 assms(4,5) by (intro mult_mono) simp_all
  finally have e2d: "\<bar>e2 * dB\<bar> \<le> 101 / 8388608" by simp
  define w where "w = e2 * dB"
  have hd: "h * dB = P + w" using dB0 by (simp add: h_eq w_def distrib_right)
  from e2d have wb: "\<bar>w\<bar> \<le> 101 / 8388608" by (simp add: w_def)
  from Pb wb have "\<bar>h * dB\<bar> \<le> 1073741824" unfolding hd by linarith
  from fl_err_2p30 [OF this]
  obtain v where v: "fl (h * dB) = Fin v" "\<bar>v - h * dB\<bar> \<le> 1 / 8388608" by auto
  from v(2) Pb wb hb have "\<bar>v - h\<bar> \<le> 1073741824" unfolding hd by linarith
  from fl_err_2p30 [OF this]
  obtain v1 where v1: "fl (v - h) = Fin v1" "\<bar>v1 - (v - h)\<bar> \<le> 1 / 8388608" by auto
  from v1(2) v(2) Pb wb hb b have "\<bar>v1 - b\<bar> \<le> 1073741824" unfolding hd by linarith
  from fl_err_2p30 [OF this]
  obtain pB where pB: "fl (v1 - b) = Fin pB" "\<bar>pB - (v1 - b)\<bar> \<le> 1 / 8388608" by auto
  have B: "js_sub (js_sub (js_mul (Fin h) (Fin dB)) (Fin h)) (Fin b) = Fin pB"
    by (simp add: v(1) js_sub_Fin v1(1) pB(1))
  from u(2) pA(2) v(2) v1(2) pB(2) wb have "\<bar>pA - pB\<bar> \<le> 1 / 32768"
    unfolding hd by linarith
  then have "\<bar>pA - pB\<bar> \<le> 1 / 2 ^ 15" by simp
  with H A B show ?thesis by blast
qed

lemma scenario_example:
  "calculateArbProfitScenarios (Fin (- 110)) (Fin 1000) (Some [Fin 100]) =
     [\<lparr>odds = Fin 100, requiredBet = fl (95455 / 100), profit = fl (- 4545 / 100),
       roi = fl (- 233 / 10000)\<rparr>]"
proof -
  have l: "fl (95455 / 100) = Fin (4198155297174323 / 4398046511104)"
    "fl (- 4545 / 100) = Fin (- 3198259422874829 / 70368744177664)"
    "fl (- 233 / 10000) = Fin (- 1678941941083721 / 72057594037927936)"
    by (simp_all add: fl_unfold)
  have h: "js_div (js_mul (Fin 1000) (Fin (2149445276699555 / 1125899906842624))) (Fin 2) =
             Fin (8396270612107637 / 8796093022208)"
    by (simp add: fl_unfold)
  have p: "js_sub (js_sub (js_mul (Fin 1000) (Fin (2149445276699555 / 1125899906842624)))
             (Fin 1000)) (Fin (8396270612107637 / 8796093022208)) =
             Fin (- 399822410100363 / 8796093022208)"
    by (simp add: js_sub_def fl_unfold)
  have t: "js_add (Fin 1000) (Fin (8396270612107637 / 8796093022208)) =
             Fin (4298090908578909 / 2199023255552)"
    by (simp add: fl_unfold)
  have r: "js_div (Fin (- 399822410100363 / 8796093022208))
             (Fin (4298090908578909 / 2199023255552)) =
             Fin (- 3351516001764085 / 144115188075855872)"
    by (simp add: fl_unfold)
  have rb: "js_div (Math_round (js_mul (Fin (8396270612107637 / 8796093022208)) (Fin 100)))
              (Fin 100) = Fin (4198155297174323 / 4398046511104)"
    by (simp add: fl_unfold)
  have rp: "js_div (Math_round (js_mul (Fin (- 399822410100363 / 8796093022208)) (Fin 100)))
              (Fin 100) = Fin (- 3198259422874829 / 70368744177664)"
    by (simp add: fl_unfold)
  have rr: "js_div (Math_round (js_mul (Fin (- 3351516001764085 / 144115188075855872))
              (Fin 10000))) (Fin 10000) = Fin (- 1678941941083721 / 72057594037927936)"
    by (simp add: fl_unfold)
  have g: "js_gt (Fin (4298090908578909 / 2199023255552)) (Fin 0)" by (simp add: js_gt_def)
  show ?thesis
    unfolding l calculateArbProfitScenarios_def ad_m110 Let_def option.case list.map
      arbScenario_def ad_100 h p t
    using g by (simp only: if_True r rb rp rr)
qed

lemma profit_b_example:
  "js_sub (js_sub (js_mul (Fin (8396270612107637 / 8796093022208))
       (americanToDecimal (Fin 100))) (Fin (8396270612107637 / 8796093022208))) (Fin 1000) =
     Fin (- 399822410100363 / 8796093022208)"
  by (simp add: ad_100 js_sub_def fl_unfold)

lemma profit_a_example:
  "js_sub (js_sub (js_mul (Fin 1000) (americanToDecimal (Fin (- 110)))) (Fin 1000))
     (Fin (8396270612107637 / 8796093022208)) = Fin (- 399822410100363 / 8796093022208)"
  by (simp add: ad_m110 js_sub_def fl_unfold)

lemma scenario_not_a_number:
  "calculateArbProfitScenarios (Fin 100) (Fin (2 ^ 1023)) (Some [Fin 100]) =
     [\<lparr>odds = Fin 100, requiredBet = PInf, profit = NaN, roi = NaN\<rparr>]"
proof -
  define B :: real where "B = 2 ^ 1023"
  have "(2::real) ^ 1024 = 2 ^ 1023 * 2" by simp
  then have "2 ^ 1024 \<le> B * 2" by (simp add: B_def)
  from fl_huge [OF this] have H: "js_mul (Fin B) (Fin 2) = PInf" by simp
  show ?thesis
    unfolding B_def [symmetric] calculateArbProfitScenarios_def ad_100 Let_def
      option.case list.map arbScenario_def H
    by (simp add: js_sub_def js_gt_def inf_of_sign_def)
qed

text \<open>
  Claim C1, as stated: for every stake and all nonzero odds the profit if side A wins
  equals the profit if side B wins, within floating-point tolerance. It fails when the
  payout overflows: with the stake \<open>2^1023\<close> at odds \<open>+100\<close> against \<open>+100\<close> the
  payout and the hedge stake are \<open>Infinity\<close>, and both profits are NaN.
\<close>

theorem hedge_equalization_counterexample:
  "js_div (js_mul (Fin (2 ^ 1023)) (americanToDecimal (Fin 100)))
      (americanToDecimal (Fin 100)) = PInf
   \<and> js_sub (js_sub (js_mul (Fin (2 ^ 1023)) (americanToDecimal (Fin 100)))
        (Fin (2 ^ 1023))) PInf = NaN
   \<and> js_sub (js_sub (js_mul PInf (americanToDecimal (Fin 100))) PInf) (Fin (2 ^ 1023)) = NaN
   \<and> calculateArbProfitScenarios (Fin 100) (Fin (2 ^ 1023)) (Some [Fin 100]) =
       [\<lparr>odds = Fin 100, requiredBet = PInf, profit = NaN, roi = NaN\<rparr>]"
proof -
  have "(2::real) ^ 1024 = 2 ^ 1023 * 2" by simp
  then have "(2::real) ^ 1024 \<le> 2 ^ 1023 * 2" by simp
  from fl_huge [OF this] have H: "js_mul (Fin (2 ^ 1023)) (Fin 2) = PInf" by simp
  have a: "js_div (js_mul (Fin (2 ^ 1023)) (americanToDecimal (Fin 100)))
      (americanToDecimal (Fin 100)) = PInf"
    unfolding ad_100 H by simp
  have b: "js_sub (js_sub (js_mul (Fin (2 ^ 1023)) (americanToDecimal (Fin 100)))
        (Fin (2 ^ 1023))) PInf = NaN"
    unfolding ad_100 H by (simp add: js_sub_def)
  have c: "js_sub (js_sub (js_mul PInf (americanToDecimal (Fin 100))) PInf)
        (Fin (2 ^ 1023)) = NaN"
    unfolding ad_100 by (simp add: js_sub_def inf_of_sign_def)
  from a b c scenario_not_a_number show ?thesis by (intro conjI)
qed

text \<open>
  Claim C1, amended: for a stake \<open>b\<close> of at most \<open>2^20\<close> in magnitude, odds \<open>a\<close>
  with \<open>1 <= |a| <= 10000\<close> and every candidate \<open>y\<close> of the list with
  \<open>1 <= |y| <= 10000\<close>, the hedge stake \<open>h\<close> is \<open>b * dA / dB\<close> evaluated in double
  arithmetic, the profit if side A wins, \<open>b * dA - b - h\<close>, and the profit if side B
  wins, \<open>h * dB - h - b\<close>, both evaluated in double arithmetic, differ by at most
  \<open>2^-15\<close>, and the scenario's \<open>requiredBet\<close> and \<open>profit\<close> are \<open>h\<close> and the profit
  if side A wins, in cents. In particular, \<open>-110\<close> with a stake of 1000 hedged at
  \<open>+100\<close> has a hedge stake within 0.05 of 954.5 and the same profit on either
  outcome, within 0.05 of -45.5; the scenario returned has 954.55 and -45.45.
\<close>

theorem hedge_equalization:
  assumes "\<bar>b\<bar> \<le> 2 ^ 20" and "1 \<le> \<bar>a\<bar>" and "\<bar>a\<bar> \<le> 10000"
    and "i < length t" and "t ! i = Fin y" and "1 \<le> \<bar>y\<bar>" and "\<bar>y\<bar> \<le> 10000"
  shows "(\<exists>dA dB h pA pB.
            americanToDecimal (Fin a) = Fin dA \<and> americanToDecimal (t ! i) = Fin dB
          \<and> js_div (js_mul (Fin b) (Fin dA)) (Fin dB) = Fin h
          \<and> js_sub (js_sub (js_mul (Fin b) (Fin dA)) (Fin b)) (Fin h) = Fin pA
          \<and> js_sub (js_sub (js_mul (Fin h) (Fin dB)) (Fin h)) (Fin b) = Fin pB
          \<and> \<bar>pA - pB\<bar> \<le> 1 / 2 ^ 15
          \<and> requiredBet (calculateArbProfitScenarios (Fin a) (Fin b) (Some t) ! i) =
              js_div (Math_round (js_mul (Fin h) (Fin 100))) (Fin 100)
          \<and> profit (calculateArbProfitScenarios (Fin a) (Fin b) (Some t) ! i) =
              js_div (Math_round (js_mul (Fin pA) (Fin 100))) (Fin 100))
       \<and> (\<exists>h p.
              js_div (js_mul (Fin 1000) (americanToDecimal (Fin (- 110))))
                (americanToDecimal (Fin 100)) = Fin h
            \<and> \<bar>h - 9545 / 10\<bar> \<le> 5 / 100
            \<and> js_sub (js_sub (js_mul (Fin 1000) (americanToDecimal (Fin (- 110))))
                  (Fin 1000)) (Fin h) = Fin p
            \<and> js_sub (js_sub (js_mul (Fin h) (americanToDecimal (Fin 100))) (Fin h))
                  (Fin 1000) = Fin p
            \<and> \<bar>p - (- 455 / 10)\<bar> \<le> 5 / 100)
       \<and> calculateArbProfitScenarios (Fin (- 110)) (Fin 1000) (Some [Fin 100]) =
           [\<lparr>odds = Fin 100, requiredBet = fl (95455 / 100), profit = fl (- 4545 / 100),
             roi = fl (- 233 / 10000)\<rparr>]"
proof -
  from decimal_range [OF assms(2,3)]
  obtain dA where dA: "americanToDecimal (Fin a) = Fin dA" "1 \<le> dA" "dA \<le> 101" by auto
  from decimal_range [OF assms(6,7)]
  obtain dB where dB: "americanToDecimal (Fin y) = Fin dB" "1 \<le> dB" "dB \<le> 101" by auto
  from hedge_profits [OF assms(1) dA(2,3) dB(2,3)]
  obtain h pA pB where hp:
    "js_div (js_mul (Fin b) (Fin dA)) (Fin dB) = Fin h"
    "js_sub (js_sub (js_mul (Fin b) (Fin dA)) (Fin b)) (Fin h) = Fin pA"
    "js_sub (js_sub (js_mul (Fin h) (Fin dB)) (Fin h)) (Fin b) = Fin pB"
    "\<bar>pA - pB\<bar> \<le> 1 / 2 ^ 15" by auto
  have dB': "americanToDecimal (t ! i) = Fin dB" using dB(1) assms(5) by simp
  have rb: "requiredBet (calculateArbProfitScenarios (Fin a) (Fin b) (Some t) ! i) =
              js_div (Math_round (js_mul (Fin h) (Fin 100))) (Fin 100)"
    unfolding scenario_fields(1) [OF assms(4)] dA(1) dB' hp(1) ..
  have pr: "profit (calculateArbProfitScenarios (Fin a) (Fin b) (Some t) ! i) =
              js_div (Math_round (js_mul (Fin pA) (Fin 100))) (Fin 100)"
    unfolding scenario_fields(2) [OF assms(4)] dA(1) dB' hp(1) hp(2) ..
  have general: "\<exists>dA dB h pA pB.
            americanToDecimal (Fin a) = Fin dA \<and> americanToDecimal (t ! i) = Fin dB
          \<and> js_div (js_mul (Fin b) (Fin dA)) (Fin dB) = Fin h
          \<and> js_sub (js_sub (js_mul (Fin b) (Fin dA)) (Fin b)) (Fin h) = Fin pA
          \<and> js_sub (js_sub (js_mul (Fin h) (Fin dB)) (Fin h)) (Fin b) = Fin pB
          \<and> \<bar>pA - pB\<bar> \<le> 1 / 2 ^ 15
          \<and> requiredBet (calculateArbProfitScenarios (Fin a) (Fin b) (Some t) ! i) =
              js_div (Math_round (js_mul (Fin h) (Fin 100))) (Fin 100)
          \<and> profit (calculateArbProfitScenarios (Fin a) (Fin b) (Some t) ! i) =
              js_div (Math_round (js_mul (Fin pA) (Fin 100))) (Fin 100)"
    apply (rule exI [of _ dA], rule exI [of _ dB], rule exI [of _ h])
    apply (rule exI [of _ pA], rule exI [of _ pB])
    using dA(1) dB' hp rb pr by (intro conjI)
  have n1: "\<bar>8396270612107637 / 8796093022208 - 9545 / 10\<bar> \<le> (5 / 100 :: real)"
    by simp
  have n2: "\<bar>- 399822410100363 / 8796093022208 - (- 455 / 10)\<bar> \<le> (5 / 100 :: real)"
    by simp
  have literal: "\<exists>h p.
              js_div (js_mul (Fin 1000) (americanToDecimal (Fin (- 110))))
                (americanToDecimal (Fin 100)) = Fin h
            \<and> \<bar>h - 9545 / 10\<bar> \<le> 5 / 100
            \<and> js_sub (js_sub (js_mul (Fin 1000) (americanToDecimal (Fin (- 110))))
                  (Fin 1000)) (Fin h) = Fin p
            \<and> js_sub (js_sub (js_mul (Fin h) (americanToDecimal (Fin 100))) (Fin h))
                  (Fin 1000) = Fin p
            \<and> \<bar>p - (- 455 / 10)\<bar> \<le> 5 / 100"
    apply (rule exI [of _ "8396270612107637 / 8796093022208"])
    apply (rule exI [of _ "- 399822410100363 / 8796093022208"])
    using hedge_example n1 profit_a_example profit_b_example n2 by (intro conjI)
  from general literal scenario_example show ?thesis by (intro conjI)
qed

theorem hedge_equalization_witness:
  "\<exists>dA dB h pA pB.
      americanToDecimal (Fin (- 110)) = Fin dA \<and> americanToDecimal ([Fin 100] ! 0) = Fin dB
    \<and> js_div (js_mul (Fin 1000) (Fin dA)) (Fin dB) = Fin h
    \<and> js_sub (js_sub (js_mul (Fin 1000) (Fin dA)) (Fin 1000)) (Fin h) = Fin pA
    \<and> js_sub (js_sub (js_mul (Fin h) (Fin dB)) (Fin h)) (Fin 1000) = Fin pB
    \<and> \<bar>pA - pB\<bar> \<le> 1 / 2 ^ 15
    \<and> requiredBet (calculateArbProfitScenarios (Fin (- 110)) (Fin 1000)
          (Some [Fin 100]) ! 0) = js_div (Math_round (js_mul (Fin h) (Fin 100))) (Fin 100)
    \<and> profit (calculateArbProfitScenarios (Fin (- 110)) (Fin 1000)
          (Some [Fin 100]) ! 0) = js_div (Math_round (js_mul (Fin pA) (Fin 100))) (Fin 100)"
proof -
  have h: "\<bar>1000 :: real\<bar> \<le> 2 ^ 20" "(1::real) \<le> \<bar>- 110\<bar>" "\<bar>- 110 :: real\<bar> \<le> 10000"
    "(0::nat) < length [Fin 100]" "[Fin 100] ! 0 = Fin 100" "(1::real) \<le> \<bar>100\<bar>"
    "\<bar>100 :: real\<bar> \<le> 10000" by simp_all
  from hedge_equalization [OF h] show ?thesis by (rule conjunct1)
qed

section \<open>Validation of odds and bankroll\<close>

lemma validateOdds_valid_iff:
  "isValid (validateOdds v) \<longleftrightarrow> (\<exists>x. v = Fin x \<and> - 1000 \<le> x \<and> x \<le> 10000 \<and> x \<noteq> 0)"
  by (cases v) (auto simp: validateOdds_def js_le_def)

lemma validateBankroll_valid_iff:
  "isValid (validateBankroll v) \<longleftrightarrow> (\<exists>x. v = Fin x \<and> 0 \<le> x \<and> x \<le> 1000000)"
  by (cases v) (auto simp: validateBankroll_def js_gt_def)

lemma validateOdds_error:
  "error (validateOdds v) =
     (if isNaN v then Some ''Odds must be a valid number''
      else if \<not> (js_le (Fin (- 1000)) v \<and> js_le v (Fin 10000))
      then Some ''Odds must be between -1000 and 10000''
      else if js_eq v (Fin 0) then Some ''Odds cannot be zero''
      else None)"
  by (simp add: validateOdds_def)

lemma validateBankroll_error:
  "error (validateBankroll v) =
     (if isNaN v then Some ''Bankroll must be a valid number''
      else if js_lt v (Fin 0) then Some ''Bankroll cannot be negative''
      else if js_gt v (Fin 1000000)
      then Some ''Bankroll exceeds maximum allowed ($1,000,000)''
      else None)"
  by (simp add: validateBankroll_def)

lemma validateOdds_rejection_message:
  "\<not> isValid (validateOdds v) \<Longrightarrow> \<exists>m. error (validateOdds v) = Some m \<and> m \<noteq> []"
  by (auto simp: validateOdds_def split: if_splits)

lemma validateBankroll_rejection_message:
  "\<not> isValid (validateBankroll v) \<Longrightarrow> \<exists>m. error (validateBankroll v) = Some m \<and> m \<noteq> []"
  by (auto simp: validateBankroll_def split: if_splits)

text \<open>
  Claim C9. \<open>validateOdds\<close> accepts exactly the finite numbers in \<open>[-1000, 10000]\<close>
  other than 0, and \<open>validateBankroll\<close> exactly the finite numbers in
  \<open>[0, 1000000]\<close>. Every rejection carries a non-empty message, and the message names
  the condition that failed: not a number, out of range, or zero.
\<close>

theorem collaborator_validation:
  "(isValid (validateOdds v) \<longleftrightarrow> (\<exists>x. v = Fin x \<and> - 1000 \<le> x \<and> x \<le> 10000 \<and> x \<noteq> 0))
   \<and> (isValid (validateBankroll w) \<longleftrightarrow> (\<exists>x. w = Fin x \<and> 0 \<le> x \<and> x \<le> 1000000))
   \<and> (\<not> isValid (validateOdds v) \<longrightarrow>
        (\<exists>m. error (validateOdds v) = Some m \<and> m \<noteq> []))
   \<and> (\<not> isValid (validateBankroll w) \<longrightarrow>
        (\<exists>m. error (validateBankroll w) = Some m \<and> m \<noteq> []))
   \<and> error (validateOdds v) =
        (if isNaN v then Some ''Odds must be a valid number''
         else if \<not> (js_le (Fin (- 1000)) v \<and> js_le v (Fin 10000))
         then Some ''Odds must be between -1000 and 10000''
         else if js_eq v (Fin 0) then Some ''Odds cannot be zero''
         else None)
   \<and> error (validateBankroll w) =
        (if isNaN w then Some ''Bankroll must be a valid number''
         else if js_lt w (Fin 0) then Some ''Bankroll cannot be negative''
         else if js_gt w (Fin 1000000)
         then Some ''Bankroll exceeds maximum allowed ($1,000,000)''
         else None)"
  using validateOdds_valid_iff [of v] validateBankroll_valid_iff [of w]
    validateOdds_rejection_message [of v] validateBankroll_rejection_message [of w]
    validateOdds_error [of v] validateBankroll_error [of w]
  by blast

theorem collaborator_validation_witness:
  "isValid (validateOdds (Fin (- 110))) \<and> \<not> isValid (validateOdds (Fin 0))
   \<and> error (validateOdds (Fin 0)) = Some ''Odds cannot be zero''
   \<and> \<not> isValid (validateOdds PInf) \<and> \<not> isValid (validateOdds NaN)
   \<and> isValid (validateBankroll (Fin 1000)) \<and> \<not> isValid (validateBankroll (Fin (- 1)))
   \<and> error (validateBankroll (Fin (- 1))) = Some ''Bankroll cannot be negative''
   \<and> \<not> isValid (validateBankroll PInf)"
  using collaborator_validation [of "Fin (- 110)" "Fin 1000"]
    collaborator_validation [of "Fin 0" "Fin (- 1)"]
    collaborator_validation [of PInf PInf]
    collaborator_validation [of NaN NaN]
  by (simp add: js_le_def js_gt_def)

end
